theory Spec2Isabelle
  imports Complex_Main "HOL-Library.AList" "HOL-Library.Word"
begin

section \<open>Data model of the Controller (bxthre3\_controller.py)\<close>

text \<open>
  A Python \<open>dict\<close> is modelled as an association list in insertion order:
  \<open>d[k] = v\<close> is \<^const>\<open>AList.update\<close> (an existing key keeps its position, a new
  key goes to the end), \<open>del d[k]\<close> is \<^const>\<open>AList.delete\<close>, \<open>k in d\<close> is
  \<open>dict_contains\<close>, \<open>d.get(k, default)\<close> is \<open>dict_get\<close>, \<open>len(d)\<close> is
  \<^const>\<open>length\<close>. Wall-clock readings of \<open>time.time()\<close> are passed in as reals.
\<close>

type_synonym ('k, 'v) dict = "('k \<times> 'v) list"

definition dict_contains :: "'k \<Rightarrow> ('k, 'v) dict \<Rightarrow> bool" where
  "dict_contains k d = (map_of d k \<noteq> None)"

definition dict_get :: "('k, 'v) dict \<Rightarrow> 'k \<Rightarrow> 'v \<Rightarrow> 'v" where
  "dict_get d k dflt = (case map_of d k of None \<Rightarrow> dflt | Some v \<Rightarrow> v)"

definition dict_keys :: "('k, 'v) dict \<Rightarrow> 'k list" where
  "dict_keys d = map fst d"

datatype py_error = KeyError | RuntimeError

datatype scalar = SNum int | SStr string | SBool bool | SNull

text \<open>
  A task descriptor is the JSON object of a submitted task. The Controller reads its
  \<open>"id"\<close> and \<open>"depends_on"\<close> keys and writes its \<open>"dag_id"\<close> key; an absent
  optional key is \<open>None\<close>.
\<close>

record task =
  task_id :: string
  task_module :: string
  task_inputs :: "scalar list"
  depends_on :: "string list option"
  task_dag_id :: "string option"

text \<open>
  A result record as sent by a worker. \<open>result.get("success")\<close> and
  \<open>result.get("dag_id")\<close> are read for their truth value, so an absent \<open>success\<close> is
  \<open>False\<close> and an absent \<open>dag_id\<close> is \<open>None\<close>.
\<close>

record result =
  res_success :: bool
  res_output :: string
  res_error :: string
  res_duration :: real
  res_dag_id :: "string option"

datatype node_status = Idle | Busy

record completed_entry =
  ce_task_id :: string
  ce_result :: result
  ce_timestamp :: real

record Node =
  node_id :: string
  node_conn :: nat
  node_addr :: "string \<times> nat"
  ram_limit :: int
  node_status :: node_status
  current_task :: "string option"
  task_count :: nat
  last_heartbeat :: real
  completed_tasks :: "completed_entry list"

definition Node_init :: "real \<Rightarrow> string \<Rightarrow> nat \<Rightarrow> string \<times> nat \<Rightarrow> int \<Rightarrow> Node" where
  "Node_init now nid c a ram =
     \<lparr>node_id = nid, node_conn = c, node_addr = a, ram_limit = ram, node_status = Idle,
      current_task = None, task_count = 0, last_heartbeat = now, completed_tasks = []\<rparr>"

definition update_heartbeat :: "real \<Rightarrow> Node \<Rightarrow> Node" where
  "update_heartbeat now n = n\<lparr>last_heartbeat := now\<rparr>"

definition is_alive :: "real \<Rightarrow> Node \<Rightarrow> bool" where
  "is_alive now n = (now - last_heartbeat n < 60)"

subsection \<open>DAG\<close>

datatype dag_status = Pending | Running | Completed

record DAG =
  dag_id :: string
  dag_name :: string
  tasks :: "task list"
  dag_status :: dag_status
  task_results :: "(string, result) dict"
  task_dependencies :: "(string, string list) dict"
  created_at :: real
  started_at :: "real option"
  completed_at :: "real option"

text \<open>\<open>task.get("depends_on", [])\<close>\<close>

definition declared_deps :: "task \<Rightarrow> string list" where
  "declared_deps t = (case depends_on t of None \<Rightarrow> [] | Some ds \<Rightarrow> ds)"

definition build_dependencies :: "task list \<Rightarrow> (string, string list) dict" where
  "build_dependencies ts =
     foldl (\<lambda>deps t. AList.update (task_id t) (declared_deps t) deps) [] ts"

definition DAG_init :: "real \<Rightarrow> string \<Rightarrow> string \<Rightarrow> task list \<Rightarrow> DAG" where
  "DAG_init now did nm ts =
     \<lparr>dag_id = did, dag_name = nm, tasks = ts, dag_status = Pending, task_results = [],
      task_dependencies = build_dependencies ts, created_at = now,
      started_at = None, completed_at = None\<rparr>"

definition get_ready_tasks :: "DAG \<Rightarrow> task list" where
  "get_ready_tasks d =
     filter (\<lambda>t. \<not> dict_contains (task_id t) (task_results d) \<and>
                 list_all (\<lambda>dep. dict_contains dep (task_results d))
                          (dict_get (task_dependencies d) (task_id t) []))
            (tasks d)"

text \<open>\<open>if not self.started_at\<close> holds for \<open>None\<close> and for the float \<open>0.0\<close>.\<close>

definition falsy_time :: "real option \<Rightarrow> bool" where
  "falsy_time x = (case x of None \<Rightarrow> True | Some v \<Rightarrow> v = 0)"

definition update_task_result :: "real \<Rightarrow> string \<Rightarrow> result \<Rightarrow> DAG \<Rightarrow> DAG" where
  "update_task_result now tid r d =
     (let d1 = d\<lparr>task_results := AList.update tid r (task_results d)\<rparr> in
      if length (task_results d1) = length (tasks d1)
      then d1\<lparr>dag_status := Completed, completed_at := Some now\<rparr>
      else if dag_status d1 = Pending
      then d1\<lparr>dag_status := Running,
               started_at := (if falsy_time (started_at d1) then Some now else started_at d1)\<rparr>
      else d1)"

definition is_complete :: "DAG \<Rightarrow> bool" where
  "is_complete d = (length (task_results d) = length (tasks d))"

datatype task_state = TaskPending | TaskCompleted result | TaskFailed result

record dag_dict =
  dd_dag_id :: string
  dd_name :: string
  dd_status :: dag_status
  dd_total_tasks :: nat
  dd_completed_tasks :: nat
  dd_tasks :: "(string, task_state) dict"
  dd_created_at :: real
  dd_started_at :: "real option"
  dd_completed_at :: "real option"

definition DAG_to_dict :: "DAG \<Rightarrow> dag_dict" where
  "DAG_to_dict d =
     \<lparr>dd_dag_id = dag_id d, dd_name = dag_name d, dd_status = dag_status d,
      dd_total_tasks = length (tasks d), dd_completed_tasks = length (task_results d),
      dd_tasks = foldl (\<lambda>ts t. AList.update (task_id t)
                          (case map_of (task_results d) (task_id t) of
                             None \<Rightarrow> TaskPending
                           | Some r \<Rightarrow> if res_success r then TaskCompleted r else TaskFailed r) ts)
                   [] (tasks d),
      dd_created_at = created_at d, dd_started_at = started_at d,
      dd_completed_at = completed_at d\<rparr>"

subsection \<open>TaskScheduler\<close>

record task_info =
  ti_node_id :: string
  ti_task :: task
  ti_start_time :: real

record TaskScheduler =
  task_queue :: "task list"
  pending_tasks :: "(string, task) dict"
  running_tasks :: "(string, task_info) dict"

definition TaskScheduler_init :: TaskScheduler where
  "TaskScheduler_init = \<lparr>task_queue = [], pending_tasks = [], running_tasks = []\<rparr>"

text \<open>
  \<open>add_task\<close> stamps \<open>dag_id\<close> on the descriptor object itself, which is also the
  object held in the DAG's task list. The stamp is the only write to a descriptor, it is
  always the id of the DAG holding it, and no function below reads it from a DAG's task
  list, so the DAG's copy is left as submitted here.
\<close>

definition add_task :: "task \<Rightarrow> string \<Rightarrow> TaskScheduler \<Rightarrow> TaskScheduler" where
  "add_task t did sch =
     (let t' = t\<lparr>task_dag_id := Some did\<rparr> in
      sch\<lparr>task_queue := task_queue sch @ [t'],
          pending_tasks := AList.update (task_id t') t' (pending_tasks sch)\<rparr>)"

text \<open>
  \<open>get_next_task\<close>: \<open>del self.pending_tasks[task_id]\<close> raises \<open>KeyError\<close> when the key
  is absent, after \<open>popleft\<close> has already removed the head.
\<close>

definition get_next_task ::
  "real \<Rightarrow> string \<Rightarrow> TaskScheduler \<Rightarrow> (py_error + task option) \<times> TaskScheduler" where
  "get_next_task now nid sch =
     (case task_queue sch of
        [] \<Rightarrow> (Inr None, sch)
      | t # q \<Rightarrow>
          let sch1 = sch\<lparr>task_queue := q\<rparr> in
          if \<not> dict_contains (task_id t) (pending_tasks sch1) then (Inl KeyError, sch1)
          else (Inr (Some t),
                sch1\<lparr>pending_tasks := AList.delete (task_id t) (pending_tasks sch1),
                     running_tasks := AList.update (task_id t)
                        \<lparr>ti_node_id = nid, ti_task = t, ti_start_time = now\<rparr>
                        (running_tasks sch1)\<rparr>))"

definition complete_task :: "string \<Rightarrow> result \<Rightarrow> TaskScheduler \<Rightarrow> TaskScheduler" where
  "complete_task tid r sch =
     (if dict_contains tid (running_tasks sch)
      then sch\<lparr>running_tasks := AList.delete tid (running_tasks sch)\<rparr>
      else sch)"

definition fail_task :: "string \<Rightarrow> TaskScheduler \<Rightarrow> TaskScheduler" where
  "fail_task tid sch =
     (case map_of (running_tasks sch) tid of
        None \<Rightarrow> sch
      | Some info \<Rightarrow>
          let t = ti_task info in
          sch\<lparr>running_tasks := AList.delete tid (running_tasks sch),
              task_queue := task_queue sch @ [t],
              pending_tasks := AList.update (task_id t) t (pending_tasks sch)\<rparr>)"

subsection \<open>ControllerNode: state, requests and responses\<close>

text \<open>
  The three tables of the Controller. The handlers below run one at a time: each is one
  atomic step on this state (thread interleavings are outside the model).
\<close>

record ControllerNode =
  nodes :: "(string, Node) dict"
  dags :: "(string, DAG) dict"
  scheduler :: TaskScheduler

definition ControllerNode_init :: ControllerNode where
  "ControllerNode_init = \<lparr>nodes = [], dags = [], scheduler = TaskScheduler_init\<rparr>"

text \<open>
  A decoded request, by its \<open>"type"\<close> field, with the fields each handler reads, at
  the types the protocol gives them: ids are strings, \<open>ram_limit\<close> is an integer
  (\<open>None\<close> when absent, read as 128), a DAG has an optional \<open>name\<close> (read as
  \<open>unnamed\<close> when absent) and a task list (empty when absent). \<open>OtherType\<close> carries
  the rendering of any other \<open>type\<close> value.
\<close>

datatype message =
    RegisterNode string "int option"
  | Heartbeat string
  | GetTask string
  | TaskResult string string result
  | SubmitDag "string option" "task list"
  | GetStatus
  | GetDagStatus string
  | OtherType string

text \<open>
  \<open>Node.to_dict\<close>; \<open>addr\<close> is kept as the pair that the source renders as
  \<open>host:port\<close>.
\<close>

record node_dict =
  nd_node_id :: string
  nd_addr :: "string \<times> nat"
  nd_ram_limit :: int
  nd_status :: node_status
  nd_current_task :: "string option"
  nd_task_count :: nat
  nd_last_heartbeat :: real

definition Node_to_dict :: "Node \<Rightarrow> node_dict" where
  "Node_to_dict n =
     \<lparr>nd_node_id = node_id n, nd_addr = node_addr n, nd_ram_limit = ram_limit n,
      nd_status = node_status n, nd_current_task = current_task n,
      nd_task_count = task_count n, nd_last_heartbeat = last_heartbeat n\<rparr>"

text \<open>The response objects the handlers build, one constructor per shape.\<close>

datatype response =
    Success
  | SuccessMessage string
  | SuccessTask "task option"
  | SuccessDagId string
  | SuccessStatus "(string, node_dict) dict" "(string, dag_dict) dict" real
  | SuccessDag dag_dict
  | Error string

fun response_status :: "response \<Rightarrow> string" where
  "response_status (Error m) = ''error''"
| "response_status r = ''success''"

fun response_message :: "response \<Rightarrow> string option" where
  "response_message (Error m) = Some m"
| "response_message (SuccessMessage m) = Some m"
| "response_message r = None"

text \<open>What a handler call ends with: a response to send, or an exception.\<close>

datatype outcome = Reply response | Raised py_error

text \<open>
  The environment of one request: the clock reading, the 8 characters that
  \<open>str(uuid.uuid4())[:8]\<close> yields, and the connection it arrived on.
\<close>

record env =
  env_now :: real
  env_uuid :: string
  env_conn :: nat
  env_addr :: "string \<times> nat"

subsection \<open>Request handlers\<close>

definition handle_register_node ::
  "env \<Rightarrow> string \<Rightarrow> int option \<Rightarrow> ControllerNode \<Rightarrow> outcome \<times> ControllerNode" where
  "handle_register_node e nid ram s =
     (let n = Node_init (env_now e) nid (env_conn e) (env_addr e)
                (case ram of None \<Rightarrow> 128 | Some r \<Rightarrow> r) in
      (Reply (SuccessMessage ''Registered''), s\<lparr>nodes := AList.update nid n (nodes s)\<rparr>))"

definition handle_heartbeat ::
  "env \<Rightarrow> string \<Rightarrow> ControllerNode \<Rightarrow> outcome \<times> ControllerNode" where
  "handle_heartbeat e nid s =
     (case map_of (nodes s) nid of
        Some n \<Rightarrow>
          (Reply Success,
           s\<lparr>nodes := AList.update nid (update_heartbeat (env_now e) n) (nodes s)\<rparr>)
      | None \<Rightarrow> (Reply (Error ''Node not found''), s))"

definition mark_busy :: "string \<Rightarrow> task \<Rightarrow> ControllerNode \<Rightarrow> ControllerNode" where
  "mark_busy nid t s =
     (case map_of (nodes s) nid of
        Some n \<Rightarrow>
          s\<lparr>nodes := AList.update nid
                 (n\<lparr>node_status := Busy, current_task := Some (task_id t)\<rparr>) (nodes s)\<rparr>
      | None \<Rightarrow> s)"

definition handle_get_task ::
  "env \<Rightarrow> string \<Rightarrow> ControllerNode \<Rightarrow> outcome \<times> ControllerNode" where
  "handle_get_task e nid s =
     (case get_next_task (env_now e) nid (scheduler s) of
        (Inl err, sch') \<Rightarrow> (Raised err, s\<lparr>scheduler := sch'\<rparr>)
      | (Inr (Some t), sch') \<Rightarrow>
          (Reply (SuccessTask (Some t)), mark_busy nid t (s\<lparr>scheduler := sch'\<rparr>))
      | (Inr None, sch') \<Rightarrow> (Reply (SuccessTask None), s\<lparr>scheduler := sch'\<rparr>))"

text \<open>
  \<open>_schedule_dag_tasks\<close>: the ready tasks of the DAG in declaration order, each
  enqueued unless its bare id is a key of \<open>pending_tasks\<close> or of \<open>running_tasks\<close>.
\<close>

definition schedule_step :: "string \<Rightarrow> TaskScheduler \<Rightarrow> task \<Rightarrow> TaskScheduler" where
  "schedule_step did sch t =
     (if \<not> dict_contains (task_id t) (pending_tasks sch) \<and>
         \<not> dict_contains (task_id t) (running_tasks sch)
      then add_task t did sch else sch)"

definition schedule_dag_tasks :: "string \<Rightarrow> ControllerNode \<Rightarrow> ControllerNode" where
  "schedule_dag_tasks did s =
     (case map_of (dags s) did of
        None \<Rightarrow> s
      | Some d \<Rightarrow>
          s\<lparr>scheduler := foldl (schedule_step did) (scheduler s) (get_ready_tasks d)\<rparr>)"

text \<open>\<open>if dag_id:\<close> holds for a non-empty string only.\<close>

definition truthy_id :: "string option \<Rightarrow> bool" where
  "truthy_id x = (case x of None \<Rightarrow> False | Some v \<Rightarrow> v \<noteq> [])"

definition apply_dag_result ::
  "real \<Rightarrow> string \<Rightarrow> result \<Rightarrow> ControllerNode \<Rightarrow> ControllerNode" where
  "apply_dag_result now tid r s =
     (case res_dag_id r of
        None \<Rightarrow> s
      | Some did \<Rightarrow>
          if did = [] then s
          else (case map_of (dags s) did of
                  None \<Rightarrow> s
                | Some d \<Rightarrow>
                    s\<lparr>dags := AList.update did (update_task_result now tid r d) (dags s)\<rparr>))"

definition mark_idle ::
  "real \<Rightarrow> string \<Rightarrow> string \<Rightarrow> result \<Rightarrow> ControllerNode \<Rightarrow> ControllerNode" where
  "mark_idle now nid tid r s =
     (case map_of (nodes s) nid of
        None \<Rightarrow> s
      | Some n \<Rightarrow>
          s\<lparr>nodes := AList.update nid
                 (n\<lparr>node_status := Idle, current_task := None,
                    task_count := task_count n + 1,
                    completed_tasks := completed_tasks n @
                       [\<lparr>ce_task_id = tid, ce_result = r, ce_timestamp = now\<rparr>]\<rparr>)
                 (nodes s)\<rparr>)"

definition handle_task_result ::
  "env \<Rightarrow> string \<Rightarrow> string \<Rightarrow> result \<Rightarrow> ControllerNode \<Rightarrow> outcome \<times> ControllerNode" where
  "handle_task_result e nid tid r s =
     (let s1 = s\<lparr>scheduler := (if res_success r then complete_task tid r (scheduler s)
                                else fail_task tid (scheduler s))\<rparr>;
          s2 = apply_dag_result (env_now e) tid r s1;
          s3 = mark_idle (env_now e) nid tid r s2;
          s4 = (if truthy_id (res_dag_id r)
                then schedule_dag_tasks (the (res_dag_id r)) s3 else s3)
      in (Reply Success, s4))"

definition handle_submit_dag ::
  "env \<Rightarrow> string option \<Rightarrow> task list \<Rightarrow> ControllerNode \<Rightarrow> outcome \<times> ControllerNode" where
  "handle_submit_dag e nm ts s =
     (let did = env_uuid e;
          d = DAG_init (env_now e) did (case nm of None \<Rightarrow> ''unnamed'' | Some n \<Rightarrow> n) ts;
          s1 = s\<lparr>dags := AList.update did d (dags s)\<rparr>
      in (Reply (SuccessDagId did), schedule_dag_tasks did s1))"

definition handle_get_status :: "env \<Rightarrow> ControllerNode \<Rightarrow> outcome \<times> ControllerNode" where
  "handle_get_status e s =
     (Reply (SuccessStatus (map (\<lambda>(k, n). (k, Node_to_dict n)) (nodes s))
                           (map (\<lambda>(k, d). (k, DAG_to_dict d)) (dags s))
                           (env_now e)), s)"

definition handle_get_dag_status :: "string \<Rightarrow> ControllerNode \<Rightarrow> outcome \<times> ControllerNode" where
  "handle_get_dag_status did s =
     (case map_of (dags s) did of
        Some d \<Rightarrow> (Reply (SuccessDag (DAG_to_dict d)), s)
      | None \<Rightarrow> (Reply (Error ''DAG not found''), s))"

fun process_message :: "env \<Rightarrow> message \<Rightarrow> ControllerNode \<Rightarrow> outcome \<times> ControllerNode" where
  "process_message e (RegisterNode nid ram) s = handle_register_node e nid ram s"
| "process_message e (Heartbeat nid) s = handle_heartbeat e nid s"
| "process_message e (GetTask nid) s = handle_get_task e nid s"
| "process_message e (TaskResult nid tid r) s = handle_task_result e nid tid r s"
| "process_message e (SubmitDag nm ts) s = handle_submit_dag e nm ts s"
| "process_message e GetStatus s = handle_get_status e s"
| "process_message e (GetDagStatus did) s = handle_get_dag_status did s"
| "process_message e (OtherType ty) s =
     (Reply (Error (''Unknown message type: '' @ ty)), s)"

subsection \<open>Background loops, one iteration each\<close>

definition scheduler_loop_tick :: "ControllerNode \<Rightarrow> ControllerNode" where
  "scheduler_loop_tick s = foldl (\<lambda>s' did. schedule_dag_tasks did s') s (dict_keys (dags s))"

text \<open>
  The inner loop of \<open>_health_check_loop\<close> iterates \<open>running_tasks.items()\<close> and deletes
  from \<open>running_tasks\<close> inside the loop body. A dict iterator compares the dict's size
  with the size it saw when it was created each time the next item is asked for, also
  when no item is left, and raises \<open>RuntimeError\<close> if it differs. \<open>used\<close> is that
  remembered size; the list argument is what the iterator has yet to yield.
\<close>

fun requeue_running ::
  "string \<Rightarrow> nat \<Rightarrow> (string \<times> task_info) list \<Rightarrow> TaskScheduler
     \<Rightarrow> py_error option \<times> TaskScheduler" where
  "requeue_running nid used [] sch =
     (if length (running_tasks sch) \<noteq> used then (Some RuntimeError, sch) else (None, sch))"
| "requeue_running nid used ((tid, info) # rest) sch =
     (if length (running_tasks sch) \<noteq> used then (Some RuntimeError, sch)
      else if ti_node_id info = nid
      then (let t = ti_task info in
            requeue_running nid used rest
              (sch\<lparr>task_queue := task_queue sch @ [t],
                   pending_tasks := AList.update (task_id t) t (pending_tasks sch),
                   running_tasks := AList.delete tid (running_tasks sch)\<rparr>))
      else requeue_running nid used rest sch)"

fun remove_dead_nodes ::
  "string list \<Rightarrow> ControllerNode \<Rightarrow> py_error option \<times> ControllerNode" where
  "remove_dead_nodes [] s = (None, s)"
| "remove_dead_nodes (nid # rest) s =
     (if dict_contains nid (nodes s)
      then (case requeue_running nid (length (running_tasks (scheduler s)))
                   (running_tasks (scheduler s)) (scheduler s) of
              (Some err, sch') \<Rightarrow> (Some err, s\<lparr>scheduler := sch'\<rparr>)
            | (None, sch') \<Rightarrow>
                remove_dead_nodes rest
                  (s\<lparr>scheduler := sch', nodes := AList.delete nid (nodes s)\<rparr>))
      else remove_dead_nodes rest s)"

text \<open>
  One iteration of \<open>_health_check_loop\<close> at clock reading \<open>now\<close>. An error in the
  first component leaves the loop (nothing catches it), with the state as it is then.
\<close>

definition health_check :: "real \<Rightarrow> ControllerNode \<Rightarrow> py_error option \<times> ControllerNode" where
  "health_check now s =
     remove_dead_nodes (map fst (filter (\<lambda>(nid, n). \<not> is_alive now n) (nodes s))) s"

subsection \<open>Runs of the Controller\<close>

text \<open>
  A run is a sequence of events: a request handled, an iteration of the scheduler loop,
  an iteration of the reaper loop. An exception ends the handler or the loop that
  raised it and leaves the state as it is at that moment. (The reaper thread ends with
  its first exception; a run may still contain later reaper iterations, so the runs
  here include every run of the program.)
\<close>

datatype event = Request env message | SchedulerTick | HealthTick real

fun step :: "ControllerNode \<Rightarrow> event \<Rightarrow> ControllerNode" where
  "step s (Request e m) = snd (process_message e m s)"
| "step s SchedulerTick = scheduler_loop_tick s"
| "step s (HealthTick now) = snd (health_check now s)"

definition run :: "event list \<Rightarrow> ControllerNode" where
  "run evs = foldl step ControllerNode_init evs"

subsection \<open>Connection handler\<close>

text \<open>
  The inbound side of a connection is the sequence of bytes the peer sends before it
  closes. \<open>_recv_exact(conn, n)\<close> gathers \<open>n\<close> bytes: with \<open>n = 0\<close> its loop does not
  run and it returns the empty byte string; if the peer closes first it returns \<open>None\<close>.
\<close>

type_synonym byte = "8 word"

definition recv_exact :: "nat \<Rightarrow> byte list \<Rightarrow> byte list option \<times> byte list" where
  "recv_exact n inp =
     (if n \<le> length inp then (Some (take n inp), drop n inp) else (None, []))"

text \<open>\<open>int.from_bytes(length_data, byteorder='big')\<close>\<close>

definition int_from_bytes :: "byte list \<Rightarrow> nat" where
  "int_from_bytes bs = foldl (\<lambda>a b. a * 256 + unat b) 0 bs"

text \<open>
  One iteration of the loop of \<open>_handle_connection\<close>. \<open>decode\<close> stands for
  \<open>json.loads(message_data.decode('utf-8'))\<close> together with the reading of the
  request's fields: it is \<open>None\<close> where that raises or the payload is not a request
  object. \<open>Sent r\<close> means that the response \<open>r\<close> was written as one frame (the 4-byte
  length of its JSON text, then the text) and the loop goes on; \<open>Closed\<close> means that the
  loop was left and the socket closed with nothing written in this iteration.
\<close>

datatype frame_outcome = Sent response | Closed

definition handle_frame ::
  "(byte list \<Rightarrow> message option) \<Rightarrow> env \<Rightarrow> ControllerNode \<Rightarrow> byte list
     \<Rightarrow> frame_outcome \<times> ControllerNode \<times> byte list" where
  "handle_frame decode e s inp =
     (case recv_exact 4 inp of
        (None, inp1) \<Rightarrow> (Closed, s, inp1)
      | (Some length_data, inp1) \<Rightarrow>
          (case recv_exact (int_from_bytes length_data) inp1 of
             (None, inp2) \<Rightarrow> (Closed, s, inp2)
           | (Some message_data, inp2) \<Rightarrow>
               (case decode message_data of
                  None \<Rightarrow> (Closed, s, inp2)
                | Some m \<Rightarrow>
                    (case process_message e m s of
                       (Raised err, s') \<Rightarrow> (Closed, s', inp2)
                     | (Reply r, s') \<Rightarrow> (Sent r, s', inp2)))))"

text \<open>
  The loop of \<open>_handle_connection\<close> over the inbound stream: the responses written,
  in order, and the state when the socket is closed. \<open>envs k\<close> is the environment of
  the \<open>k\<close>-th request. Every iteration that goes on has consumed at least the four
  prefix bytes, so the loop ends on every stream.
\<close>

function handle_connection ::
  "(byte list \<Rightarrow> message option) \<Rightarrow> (nat \<Rightarrow> env) \<Rightarrow> nat \<Rightarrow> ControllerNode \<Rightarrow> byte list
     \<Rightarrow> response list \<times> ControllerNode" where
  "handle_connection decode envs k s inp =
     (case handle_frame decode (envs k) s inp of
        (Closed, s', rest) \<Rightarrow> ([], s')
      | (Sent r, s', rest) \<Rightarrow>
          (case handle_connection decode envs (Suc k) s' rest of
             (rs, s'') \<Rightarrow> (r # rs, s'')))"
  by pat_completeness auto
termination
  by (relation "measure (\<lambda>(decode, envs, k, s, inp). length inp)")
     (auto simp: handle_frame_def recv_exact_def
           split: if_splits option.splits prod.splits outcome.splits)

text \<open>The length announced by the 4-byte prefix of a stream.\<close>

definition frame_length :: "byte list \<Rightarrow> nat" where
  "frame_length inp = int_from_bytes (take 4 inp)"

section \<open>Invariants\<close>

text \<open>
  The consistency of the scheduler's three collections: the ids in the queue are
  pairwise distinct and are exactly the keys of \<open>pending_tasks\<close>, no id is both
  pending and running, and every running entry is stored under its task's id.
\<close>

definition sched_inv :: "TaskScheduler \<Rightarrow> bool" where
  "sched_inv sch =
     (distinct (map task_id (task_queue sch)) \<and>
      set (map task_id (task_queue sch)) = fst ` set (pending_tasks sch) \<and>
      fst ` set (pending_tasks sch) \<inter> fst ` set (running_tasks sch) = {} \<and>
      (\<forall>(k, info) \<in> set (running_tasks sch). task_id (ti_task info) = k))"

definition dag_inv :: "DAG \<Rightarrow> bool" where
  "dag_inv d =
     (task_dependencies d = build_dependencies (tasks d) \<and>
      distinct (map fst (task_results d)) \<and>
      (completed_at d \<noteq> None \<longleftrightarrow> dag_status d = Completed) \<and>
      (tasks d \<noteq> [] \<longrightarrow>
         (dag_status d = Completed \<longleftrightarrow> length (tasks d) \<le> length (task_results d))))"

text \<open>The keys of each dict of the state are pairwise distinct.\<close>

definition dicts_wf :: "ControllerNode \<Rightarrow> bool" where
  "dicts_wf s =
     (distinct (map fst (nodes s)) \<and> distinct (map fst (dags s)) \<and>
      distinct (map fst (pending_tasks (scheduler s))) \<and>
      distinct (map fst (running_tasks (scheduler s))))"

section \<open>Example inputs\<close>

definition mk_task :: "string \<Rightarrow> string list option \<Rightarrow> task" where
  "mk_task tid deps =
     \<lparr>task_id = tid, task_module = ''m'', task_inputs = [], depends_on = deps,
      task_dag_id = None\<rparr>"

definition mk_env :: "real \<Rightarrow> string \<Rightarrow> env" where
  "mk_env now uuid =
     \<lparr>env_now = now, env_uuid = uuid, env_conn = 7, env_addr = (''10.0.0.2'', 40000)\<rparr>"

definition mk_result :: "bool \<Rightarrow> string \<Rightarrow> string \<Rightarrow> result" where
  "mk_result ok out did =
     \<lparr>res_success = ok, res_output = out, res_error = [], res_duration = 1,
      res_dag_id = Some did\<rparr>"

text \<open>A DAG with a repeated task id: \<open>a\<close>, \<open>b\<close>, and a second \<open>a\<close> that depends on \<open>b\<close>.\<close>

definition ex_dup_dag :: DAG where
  "ex_dup_dag = DAG_init 0 ''d1'' ''dup''
     [mk_task ''a'' None, mk_task ''b'' None, mk_task ''a'' (Some [''b''])]"

text \<open>A two-task chain \<open>a\<close>, \<open>b\<close> after \<open>a\<close> has reported a failure.\<close>

definition ex_chain_dag :: DAG where
  "ex_chain_dag = update_task_result 3 ''a'' (mk_result False ''boom'' ''d1'')
     (DAG_init 0 ''d1'' ''chain'' [mk_task ''a'' None, mk_task ''b'' (Some [''a''])])"

text \<open>
  A run in which worker \<open>w1\<close> registers and a DAG of two root tasks is submitted, and
  the descriptors of its tasks as the scheduler stamps them.
\<close>

definition ex_two_roots :: "event list" where
  "ex_two_roots =
     [Request (mk_env 0 ''d1'') (RegisterNode ''w1'' None),
      Request (mk_env 1 ''d1'') (SubmitDag (Some ''two'') [mk_task ''t1'' None, mk_task ''t2'' None])]"

definition stamped :: "string \<Rightarrow> string \<Rightarrow> task" where
  "stamped tid did = (mk_task tid None)\<lparr>task_dag_id := Some did\<rparr>"

text \<open>Two DAGs that each hold a task with the id \<open>a\<close>, submitted one after the other.\<close>

definition ex_shared_id :: "event list" where
  "ex_shared_id =
     [Request (mk_env 0 ''d1'') (SubmitDag (Some ''first'') [mk_task ''a'' None]),
      Request (mk_env 1 ''d2'') (SubmitDag (Some ''second'') [mk_task ''a'' None])]"

text \<open>A DAG submitted with an empty task list.\<close>

definition ex_empty_dag :: "event list" where
  "ex_empty_dag = [Request (mk_env 0 ''d1'') (SubmitDag (Some ''empty'') [])]"

text \<open>
  A single-task DAG whose task is dispatched to \<open>w1\<close> and reported as failed, and the
  retry that follows: the task is re-queued, dispatched again and reported as succeeded.
\<close>

definition ex_failed_once :: "event list" where
  "ex_failed_once =
     [Request (mk_env 0 ''d1'') (RegisterNode ''w1'' None),
      Request (mk_env 1 ''d1'') (SubmitDag (Some ''retry'') [mk_task ''t1'' None]),
      Request (mk_env 2 ''u'') (GetTask ''w1''),
      Request (mk_env 3 ''u'') (TaskResult ''w1'' ''t1'' (mk_result False ''boom'' ''d1''))]"

definition ex_retried :: "event list" where
  "ex_retried =
     [Request (mk_env 4 ''u'') (GetTask ''w1''),
      Request (mk_env 5 ''u'') (TaskResult ''w1'' ''t1'' (mk_result True ''ok'' ''d1''))]"

text \<open>
  Worker \<open>w1\<close> registers at time 0, a DAG of two root tasks is submitted, \<open>w1\<close> polls
  twice and then stops heartbeating.
\<close>

definition ex_dead_worker :: "event list" where
  "ex_dead_worker =
     ex_two_roots @
     [Request (mk_env 2 ''u'') (GetTask ''w1''), Request (mk_env 3 ''u'') (GetTask ''w1'')]"

text \<open>
  A frame of \<open>16 MiB + 1\<close> bytes: the 21 bytes of the JSON text
  \<open>{"type":"get_status"}\<close> followed by spaces, behind the length prefix
  \<open>01 00 00 01\<close>. \<open>json.loads\<close> accepts trailing white space, so the payload decodes to
  a \<open>get_status\<close> request; \<open>ex_decode\<close> is the decoder restricted to this payload.
\<close>

definition ex_get_status_text :: "byte list" where
  "ex_get_status_text =
     [0x7B, 0x22, 0x74, 0x79, 0x70, 0x65, 0x22, 0x3A, 0x22, 0x67, 0x65, 0x74, 0x5F,
      0x73, 0x74, 0x61, 0x74, 0x75, 0x73, 0x22, 0x7D]"

definition ex_payload :: "byte list" where
  "ex_payload = ex_get_status_text @ replicate 16777196 0x20"

definition ex_oversize_frame :: "byte list" where
  "ex_oversize_frame = [0x01, 0x00, 0x00, 0x01] @ ex_payload"

definition ex_decode :: "byte list \<Rightarrow> message option" where
  "ex_decode bs = (if bs = ex_payload then Some GetStatus else None)"

text \<open>A small frame: the length prefix \<open>00 00 00 15\<close> and the same JSON text.\<close>

definition ex_small_decode :: "byte list \<Rightarrow> message option" where
  "ex_small_decode bs = (if bs = ex_get_status_text then Some GetStatus else None)"

text \<open>
  A one-task DAG whose task is reported as succeeded, followed by a \<open>task_result\<close>
  that names the same DAG and a task id \<open>zz\<close> that the DAG does not have.
\<close>

definition ex_foreign_result :: "event list" where
  "ex_foreign_result =
     [Request (mk_env 0 ''d1'') (SubmitDag (Some ''one'') [mk_task ''t1'' None]),
      Request (mk_env 1 ''u'') (TaskResult ''w1'' ''t1'' (mk_result True ''ok'' ''d1'')),
      Request (mk_env 2 ''u'') (TaskResult ''w1'' ''zz'' (mk_result True ''ok'' ''d1''))]"

section \<open>Notions used to state the claims\<close>

text \<open>
  Whether an event puts a new DAG under the id \<open>did\<close> (a \<open>submit_dag\<close> for which the
  id generator yields \<open>did\<close>), and the result record, if any, that an event reports
  for task \<open>tid\<close> of DAG \<open>did\<close>.
\<close>

fun replaces_dag :: "event \<Rightarrow> string \<Rightarrow> bool" where
  "replaces_dag (Request e (SubmitDag nm ts)) did = (env_uuid e = did)"
| "replaces_dag ev did = False"

fun reported :: "event \<Rightarrow> string \<Rightarrow> string \<Rightarrow> result option" where
  "reported (Request e (TaskResult nid tid' r')) did tid =
     (if tid' = tid \<and> res_dag_id r' = Some did \<and> did \<noteq> [] then Some r' else None)"
| "reported ev did tid = None"

definition latest_record :: "string \<Rightarrow> string \<Rightarrow> result \<Rightarrow> event list \<Rightarrow> result" where
  "latest_record did tid r evs =
     foldl (\<lambda>r ev. case reported ev did tid of None \<Rightarrow> r | Some r' \<Rightarrow> r') r evs"

section \<open>Auxiliary facts about dicts\<close>

lemma dict_contains_iff: "dict_contains k d \<longleftrightarrow> k \<in> fst ` set d"
  by (simp add: dict_contains_def map_of_eq_None_iff)

lemma length_update:
  "length (AList.update k v al) = (if k \<in> fst ` set al then length al else Suc (length al))"
  by (induction al) auto

lemma set_update_subset: "set (AList.update k v al) \<subseteq> insert (k, v) (set al)"
  by (induction al) auto

lemma set_delete_subset: "set (AList.delete k al) \<subseteq> set al"
  by (auto simp: AList.delete_eq)

lemma keys_delete: "fst ` set (AList.delete k al) = fst ` set al - {k}"
  by (auto simp: AList.delete_eq image_iff)

lemma length_delete_less: "k \<in> fst ` set al \<Longrightarrow> length (AList.delete k al) < length al"
proof (induction al)
  case Nil
  then show ?case by simp
next
  case (Cons p al)
  show ?case
  proof (cases "fst p = k")
    case True
    have "length (AList.delete k al) \<le> length al" by (rule AList.length_delete_le)
    with True show ?thesis by (cases p) simp
  next
    case False
    with Cons have "length (AList.delete k al) < length al" by auto
    with False show ?thesis by (cases p) auto
  qed
qed

section \<open>The ready set of a DAG\<close>

lemma build_dependencies_snoc:
  "build_dependencies (ts @ [t]) =
     AList.update (task_id t) (declared_deps t) (build_dependencies ts)"
  by (simp add: build_dependencies_def)

text \<open>
  \<open>task_dependencies\<close> is keyed by task id, so where several tasks of a DAG bear the
  same id the entry holds the \<open>depends_on\<close> of the last of them.
\<close>

lemma build_dependencies_get:
  "k \<in> task_id ` set ts \<Longrightarrow>
   map_of (build_dependencies ts) k =
     Some (declared_deps (last (filter (\<lambda>u. task_id u = k) ts)))"
proof (induction ts rule: rev_induct)
  case Nil
  then show ?case by simp
next
  case (snoc t ts)
  show ?case
  proof (cases "task_id t = k")
    case True
    then show ?thesis by (simp add: build_dependencies_snoc update_conv')
  next
    case False
    with snoc show ?thesis by (auto simp add: build_dependencies_snoc update_conv')
  qed
qed

lemma last_filter_distinct:
  "distinct (map task_id ts) \<Longrightarrow> t \<in> set ts \<Longrightarrow>
   filter (\<lambda>u. task_id u = task_id t) ts = [t]"
proof (induction ts)
  case Nil
  then show ?case by simp
next
  case (Cons u ts)
  show ?case
  proof (cases "t = u")
    case True
    with Cons.prems have "task_id t \<notin> task_id ` set ts" by simp
    then have "\<forall>x\<in>set ts. task_id x \<noteq> task_id t" by (metis imageI)
    then have "filter (\<lambda>u. task_id u = task_id t) ts = []" by (simp add: filter_empty_conv)
    with True show ?thesis by simp
  next
    case False
    with Cons.prems have "t \<in> set ts" "task_id u \<noteq> task_id t" by auto
    with Cons show ?thesis by simp
  qed
qed

lemma get_ready_tasks_keys:
  assumes "tasks d' = tasks d" "task_dependencies d' = task_dependencies d"
          "set (dict_keys (task_results d')) = set (dict_keys (task_results d))"
  shows "get_ready_tasks d' = get_ready_tasks d"
  using assms by (simp add: get_ready_tasks_def dict_contains_iff dict_keys_def)

text \<open>
  Claim C2, as the code has it. For a DAG as \<open>DAG.__init__\<close> builds it and a task \<open>t\<close>
  of it, \<open>t\<close> is in the ready set exactly when \<open>t\<close>'s id is not a key of
  \<open>task_results\<close> and every id in \<open>task_dependencies[t.id]\<close> is a key of
  \<open>task_results\<close>. \<open>task_dependencies[t.id]\<close> is the \<open>depends_on\<close> list of the last
  task of the DAG that bears \<open>t\<close>'s id, which is \<open>t\<close> itself when the task ids of the
  DAG are pairwise distinct. The ready set depends on \<open>task_results\<close> through its key
  set only, so not on any \<open>success\<close> flag.
\<close>

theorem C2_ready_set:
  assumes "task_dependencies d = build_dependencies (tasks d)" and "t \<in> set (tasks d)"
  shows "(t \<in> set (get_ready_tasks d) \<longleftrightarrow>
            \<not> dict_contains (task_id t) (task_results d) \<and>
            (\<forall>dep \<in> set (declared_deps (last (filter (\<lambda>u. task_id u = task_id t) (tasks d)))).
                dict_contains dep (task_results d))) \<and>
         (distinct (map task_id (tasks d)) \<longrightarrow>
            last (filter (\<lambda>u. task_id u = task_id t) (tasks d)) = t) \<and>
         (\<forall>d'. tasks d' = tasks d \<and> task_dependencies d' = task_dependencies d \<and>
               set (dict_keys (task_results d')) = set (dict_keys (task_results d)) \<longrightarrow>
               get_ready_tasks d' = get_ready_tasks d)"
proof -
  have k: "task_id t \<in> task_id ` set (tasks d)" using assms(2) by blast
  have "dict_get (task_dependencies d) (task_id t) [] =
          declared_deps (last (filter (\<lambda>u. task_id u = task_id t) (tasks d)))"
    using build_dependencies_get [OF k] by (simp add: dict_get_def assms(1))
  then have a: "t \<in> set (get_ready_tasks d) \<longleftrightarrow>
            \<not> dict_contains (task_id t) (task_results d) \<and>
            (\<forall>dep \<in> set (declared_deps (last (filter (\<lambda>u. task_id u = task_id t) (tasks d)))).
                dict_contains dep (task_results d))"
    using assms(2) by (simp add: get_ready_tasks_def list_all_iff)
  have b: "distinct (map task_id (tasks d)) \<longrightarrow>
            last (filter (\<lambda>u. task_id u = task_id t) (tasks d)) = t"
    using last_filter_distinct [OF _ assms(2)] by simp
  show ?thesis using a b get_ready_tasks_keys by blast
qed

text \<open>
  The chain \<open>a\<close>, \<open>b\<close> with a failed result recorded for \<open>a\<close>: \<open>b\<close> is ready.
\<close>

theorem C2_ready_set_witness:
  "task_dependencies ex_chain_dag = build_dependencies (tasks ex_chain_dag) \<and>
   mk_task ''b'' (Some [''a'']) \<in> set (tasks ex_chain_dag) \<and>
   distinct (map task_id (tasks ex_chain_dag)) \<and>
   map_option res_success (map_of (task_results ex_chain_dag) ''a'') = Some False \<and>
   mk_task ''b'' (Some [''a'']) \<in> set (get_ready_tasks ex_chain_dag)"
proof -
  have h1: "task_dependencies ex_chain_dag = build_dependencies (tasks ex_chain_dag)"
    by (simp add: ex_chain_dag_def update_task_result_def DAG_init_def)
  have h2: "mk_task ''b'' (Some [''a'']) \<in> set (tasks ex_chain_dag)"
    by (simp add: ex_chain_dag_def update_task_result_def DAG_init_def)
  have h3: "distinct (map task_id (tasks ex_chain_dag))"
    by (simp add: ex_chain_dag_def update_task_result_def DAG_init_def mk_task_def)
  have h4: "task_results ex_chain_dag = [(''a'', mk_result False ''boom'' ''d1'')]"
    by (simp add: ex_chain_dag_def update_task_result_def DAG_init_def)
  have h5: "declared_deps (mk_task ''b'' (Some [''a''])) = [''a'']"
       "task_id (mk_task ''b'' (Some [''a''])) = ''b''"
    by (simp_all add: declared_deps_def mk_task_def)
  have h6: "last (filter (\<lambda>u. task_id u = ''b'') (tasks ex_chain_dag)) =
              mk_task ''b'' (Some [''a''])"
    using C2_ready_set [OF h1 h2, THEN conjunct2, THEN conjunct1] h3 h5(2) by simp
  have "mk_task ''b'' (Some [''a'']) \<in> set (get_ready_tasks ex_chain_dag)"
    using C2_ready_set [OF h1 h2, THEN conjunct1] h5 h6
    by (simp add: h4 dict_contains_def)
  with h1 h2 h3 h4 show ?thesis by (simp add: mk_result_def)
qed

text \<open>
  The claim as worded (with \<open>t.depends_on\<close>) fails where ids repeat: the first task
  \<open>a\<close> of \<^const>\<open>ex_dup_dag\<close> declares no dependency and has no result, yet it is
  not ready, because \<open>task_dependencies['a']\<close> is the list of the second \<open>a\<close>.
\<close>

theorem C2_counterexample:
  "mk_task ''a'' None \<in> set (tasks ex_dup_dag) \<and>
   \<not> dict_contains (task_id (mk_task ''a'' None)) (task_results ex_dup_dag) \<and>
   declared_deps (mk_task ''a'' None) = [] \<and>
   mk_task ''a'' None \<notin> set (get_ready_tasks ex_dup_dag)"
  by code_simp

section \<open>DAG timestamps\<close>

text \<open>
  The first result of a one-task DAG completes it without stamping \<open>started_at\<close>; the
  first result of any other DAG stamps it.
\<close>

lemma single_task_dag_never_started:
  assumes "length (tasks d) = 1" and "task_results d = []"
  shows "started_at (update_task_result now tid r d) = started_at d \<and>
         dag_status (update_task_result now tid r d) = Completed \<and>
         completed_at (update_task_result now tid r d) = Some now"
  using assms by (simp add: update_task_result_def)

lemma larger_dag_started:
  assumes "length (tasks d) \<noteq> 1" and "task_results d = []" and "dag_status d = Pending"
    and "started_at d = None"
  shows "started_at (update_task_result now tid r d) = Some now \<and>
         dag_status (update_task_result now tid r d) = Running"
  using assms by (simp add: update_task_result_def falsy_time_def)


text \<open>
  Claim C4 at a DAG of one task: the first result ingested is also the last, the
  \<open>completed\<close> branch of \<open>update_task_result\<close> is taken and the branch that stamps
  \<open>started_at\<close> is skipped, so \<open>started_at\<close> stays \<open>None\<close> while \<open>completed_at\<close> is set.
\<close>

theorem C4_single_task_dag_not_started:
  "started_at (update_task_result 5 ''t1'' (mk_result True ''ok'' ''d1'')
       (DAG_init 0 ''d1'' ''one'' [mk_task ''t1'' None])) = None \<and>
   dag_status (update_task_result 5 ''t1'' (mk_result True ''ok'' ''d1'')
       (DAG_init 0 ''d1'' ''one'' [mk_task ''t1'' None])) = Completed \<and>
   completed_at (update_task_result 5 ''t1'' (mk_result True ''ok'' ''d1'')
       (DAG_init 0 ''d1'' ''one'' [mk_task ''t1'' None])) = Some 5"
  by (simp add: update_task_result_def DAG_init_def)

section \<open>Reference errors\<close>

text \<open>
  Claim C7. In every state, a \<open>heartbeat\<close> whose \<open>node_id\<close> is not a key of the Workers
  table is answered with status \<open>error\<close> and the message \<open>Node not found\<close>, a
  \<open>get_dag_status\<close> whose \<open>dag_id\<close> is not a key of the DAGs table with status
  \<open>error\<close> and the message \<open>DAG not found\<close>, and both leave the state as it was.
\<close>

theorem C7_reference_errors:
  "(map_of (nodes s) nid = None \<longrightarrow>
      process_message e (Heartbeat nid) s = (Reply (Error ''Node not found''), s)) \<and>
   (map_of (dags s) did = None \<longrightarrow>
      process_message e (GetDagStatus did) s = (Reply (Error ''DAG not found''), s)) \<and>
   response_status (Error ''Node not found'') = ''error'' \<and>
   response_message (Error ''Node not found'') = Some ''Node not found'' \<and>
   response_status (Error ''DAG not found'') = ''error'' \<and>
   response_message (Error ''DAG not found'') = Some ''DAG not found''"
  by (simp add: handle_heartbeat_def handle_get_dag_status_def)

theorem C7_reference_errors_witness:
  "map_of (nodes ControllerNode_init) ''ghost'' = None \<and>
   map_of (dags ControllerNode_init) ''nope'' = None \<and>
   process_message (mk_env 1 ''u'') (Heartbeat ''ghost'') ControllerNode_init =
     (Reply (Error ''Node not found''), ControllerNode_init) \<and>
   process_message (mk_env 1 ''u'') (GetDagStatus ''nope'') ControllerNode_init =
     (Reply (Error ''DAG not found''), ControllerNode_init)"
  using C7_reference_errors [of ControllerNode_init "''ghost''" "mk_env 1 ''u''" "''nope''"]
  by (simp add: ControllerNode_init_def)


section \<open>The scheduler's collections stay consistent\<close>

lemma sched_inv_init: "sched_inv TaskScheduler_init"
  by (simp add: sched_inv_def TaskScheduler_init_def)

lemma sched_inv_requeue:
  assumes inv: "sched_inv sch" and mem: "(tid, info) \<in> set (running_tasks sch)"
    and q: "task_queue sch' = task_queue sch @ [ti_task info]"
    and p: "pending_tasks sch' =
              AList.update (task_id (ti_task info)) (ti_task info) (pending_tasks sch)"
    and r: "running_tasks sch' = AList.delete tid (running_tasks sch)"
  shows "sched_inv sch'"
proof -
  from inv mem have id: "task_id (ti_task info) = tid" by (auto simp: sched_inv_def)
  from mem have "tid \<in> fst ` set (running_tasks sch)" by force
  with inv have np: "tid \<notin> fst ` set (pending_tasks sch)" by (auto simp: sched_inv_def)
  with inv have nq: "tid \<notin> set (map task_id (task_queue sch))" by (simp add: sched_inv_def)
  have r': "\<forall>(k, i) \<in> set (AList.delete tid (running_tasks sch)). task_id (ti_task i) = k"
    using inv set_delete_subset [of tid "running_tasks sch"] by (auto simp: sched_inv_def)
  show ?thesis
    using inv np nq r' unfolding sched_inv_def q p r
    by (auto simp: id dom_update keys_delete)
qed

lemma sched_inv_add_task:
  assumes "sched_inv sch" "\<not> dict_contains (task_id t) (pending_tasks sch)"
          "\<not> dict_contains (task_id t) (running_tasks sch)"
  shows "sched_inv (add_task t did sch)"
  using assms unfolding sched_inv_def add_task_def dict_contains_iff
  by (auto simp: dom_update Let_def)

lemma sched_inv_schedule_step: "sched_inv sch \<Longrightarrow> sched_inv (schedule_step did sch t)"
  by (simp add: schedule_step_def sched_inv_add_task)

lemma sched_inv_foldl_schedule:
  "sched_inv sch \<Longrightarrow> sched_inv (foldl (schedule_step did) sch ts)"
  by (induction ts arbitrary: sch) (simp_all add: sched_inv_schedule_step)

lemma get_next_task_nonempty:
  assumes "sched_inv sch" "task_queue sch = t # q"
  shows "get_next_task now nid sch =
           (Inr (Some t),
            sch\<lparr>task_queue := q,
                pending_tasks := AList.delete (task_id t) (pending_tasks sch),
                running_tasks := AList.update (task_id t)
                   \<lparr>ti_node_id = nid, ti_task = t, ti_start_time = now\<rparr> (running_tasks sch)\<rparr>)"
proof -
  from assms have "task_id t \<in> fst ` set (pending_tasks sch)"
    by (auto simp: sched_inv_def)
  then show ?thesis using assms(2) by (simp add: get_next_task_def dict_contains_iff)
qed

lemma sched_inv_get_next_task:
  assumes "sched_inv sch"
  shows "sched_inv (snd (get_next_task now nid sch))"
proof (cases "task_queue sch")
  case Nil
  then show ?thesis using assms by (simp add: get_next_task_def)
next
  case (Cons t q)
  let ?info = "\<lparr>ti_node_id = nid, ti_task = t, ti_start_time = now\<rparr>"
  from assms Cons have d: "distinct (map task_id q)" and nt: "task_id t \<notin> set (map task_id q)"
    and keys: "insert (task_id t) (set (map task_id q)) = fst ` set (pending_tasks sch)"
    and disj: "fst ` set (pending_tasks sch) \<inter> fst ` set (running_tasks sch) = {}"
    by (simp_all add: sched_inv_def)
  have r: "\<forall>(k, i) \<in> set (AList.update (task_id t) ?info (running_tasks sch)).
             task_id (ti_task i) = k"
    using assms set_update_subset [of "task_id t" ?info "running_tasks sch"]
    by (fastforce simp: sched_inv_def)
  have k1: "set (map task_id q) = fst ` set (AList.delete (task_id t) (pending_tasks sch))"
    using keys nt unfolding keys_delete by blast
  have k2: "fst ` set (AList.delete (task_id t) (pending_tasks sch)) \<inter>
            fst ` set (AList.update (task_id t) ?info (running_tasks sch)) = {}"
    using disj unfolding keys_delete dom_update by blast
  show ?thesis
    unfolding get_next_task_nonempty [OF assms Cons] sched_inv_def
    using d k1 k2 r by simp
qed

lemma sched_inv_complete_task: "sched_inv sch \<Longrightarrow> sched_inv (complete_task tid r sch)"
  using set_delete_subset [of tid "running_tasks sch"]
  unfolding sched_inv_def complete_task_def
  by (auto simp: keys_delete)

lemma sched_inv_fail_task:
  assumes "sched_inv sch"
  shows "sched_inv (fail_task tid sch)"
proof (cases "map_of (running_tasks sch) tid")
  case None
  then show ?thesis using assms by (simp add: fail_task_def)
next
  case (Some info)
  then have "(tid, info) \<in> set (running_tasks sch)" by (rule map_of_SomeD)
  then show ?thesis
    by (rule sched_inv_requeue [OF assms]) (simp_all add: fail_task_def Some Let_def)
qed

lemma requeue_running_inv:
  assumes "sched_inv sch" "length (running_tasks sch) \<le> used"
          "length (running_tasks sch) = used \<longrightarrow> set items \<subseteq> set (running_tasks sch)"
  shows "sched_inv (snd (requeue_running nid used items sch))"
  using assms
proof (induction items arbitrary: sch)
  case Nil
  then show ?case by simp
next
  case (Cons p items)
  obtain tid info where p: "p = (tid, info)" by (cases p)
  show ?case
  proof (cases "length (running_tasks sch) \<noteq> used")
    case True
    then show ?thesis using Cons.prems by (simp add: p)
  next
    case False
    then have mem: "(tid, info) \<in> set (running_tasks sch)" and
      sub: "set items \<subseteq> set (running_tasks sch)"
      using Cons.prems(3) by (auto simp: p)
    show ?thesis
    proof (cases "ti_node_id info = nid")
      case True
      let ?sch = "sch\<lparr>task_queue := task_queue sch @ [ti_task info],
                   pending_tasks := AList.update (task_id (ti_task info)) (ti_task info) (pending_tasks sch),
                   running_tasks := AList.delete tid (running_tasks sch)\<rparr>"
      have i: "sched_inv ?sch"
        using mem by (rule sched_inv_requeue [OF Cons.prems(1)]) simp_all
      from mem have "tid \<in> fst ` set (running_tasks sch)" by force
      then have l: "length (running_tasks ?sch) < used"
        using length_delete_less [of tid "running_tasks sch"] False by simp
      have "sched_inv (snd (requeue_running nid used items ?sch))"
        using i l by (intro Cons.IH) simp_all
      then show ?thesis using False True by (simp add: p Let_def)
    next
      case nm: False
      have "sched_inv (snd (requeue_running nid used items sch))"
        using Cons.prems sub by (intro Cons.IH) simp_all
      then show ?thesis using False nm by (simp add: p)
    qed
  qed
qed

lemma remove_dead_nodes_inv:
  "sched_inv (scheduler s) \<Longrightarrow> sched_inv (scheduler (snd (remove_dead_nodes ns s)))"
proof (induction ns arbitrary: s)
  case Nil
  then show ?case by simp
next
  case (Cons nid ns)
  obtain res sch' where e:
    "requeue_running nid (length (running_tasks (scheduler s)))
       (running_tasks (scheduler s)) (scheduler s) = (res, sch')"
    by (cases "requeue_running nid (length (running_tasks (scheduler s)))
                 (running_tasks (scheduler s)) (scheduler s)")
  have "sched_inv (snd (requeue_running nid (length (running_tasks (scheduler s)))
          (running_tasks (scheduler s)) (scheduler s)))"
    using Cons.prems by (intro requeue_running_inv) simp_all
  then have i: "sched_inv sch'" by (simp add: e)
  show ?case
  proof (cases "dict_contains nid (nodes s)")
    case False
    then show ?thesis using Cons by simp
  next
    case True
    show ?thesis
    proof (cases res)
      case None
      have "sched_inv (scheduler (snd (remove_dead_nodes ns
               (s\<lparr>scheduler := sch', nodes := AList.delete nid (nodes s)\<rparr>))))"
        using i by (intro Cons.IH) simp
      then show ?thesis using True e None by simp
    next
      case (Some err)
      then show ?thesis using True e i by simp
    qed
  qed
qed

lemma health_check_inv:
  "sched_inv (scheduler s) \<Longrightarrow> sched_inv (scheduler (snd (health_check now s)))"
  by (simp add: health_check_def remove_dead_nodes_inv)

lemma schedule_dag_tasks_inv:
  "sched_inv (scheduler s) \<Longrightarrow> sched_inv (scheduler (schedule_dag_tasks did s))"
  by (simp add: schedule_dag_tasks_def sched_inv_foldl_schedule split: option.splits)

lemma scheduler_loop_tick_inv:
  "sched_inv (scheduler s) \<Longrightarrow> sched_inv (scheduler (scheduler_loop_tick s))"
proof -
  have "sched_inv (scheduler s) \<Longrightarrow>
        sched_inv (scheduler (foldl (\<lambda>s' did. schedule_dag_tasks did s') s ds))" for ds
    by (induction ds arbitrary: s) (simp_all add: schedule_dag_tasks_inv)
  then show "sched_inv (scheduler s) \<Longrightarrow> ?thesis" by (simp add: scheduler_loop_tick_def)
qed

lemma scheduler_mark_busy [simp]: "scheduler (mark_busy nid t s) = scheduler s"
  by (simp add: mark_busy_def split: option.splits)

lemma scheduler_mark_idle [simp]: "scheduler (mark_idle now nid tid r s) = scheduler s"
  by (simp add: mark_idle_def split: option.splits)

lemma scheduler_apply_dag_result [simp]:
  "scheduler (apply_dag_result now tid r s) = scheduler s"
  by (simp add: apply_dag_result_def split: option.splits)

lemma handle_get_task_scheduler:
  "scheduler (snd (handle_get_task e nid s)) = snd (get_next_task (env_now e) nid (scheduler s))"
  by (simp add: handle_get_task_def split: prod.splits sum.splits option.splits)

lemma process_message_inv:
  assumes "sched_inv (scheduler s)"
  shows "sched_inv (scheduler (snd (process_message e m s)))"
proof (cases m)
  case (GetTask nid)
  then show ?thesis using assms
    by (simp add: handle_get_task_scheduler sched_inv_get_next_task)
next
  case (TaskResult nid tid r)
  then show ?thesis using assms
    by (simp add: handle_task_result_def Let_def schedule_dag_tasks_inv
          sched_inv_complete_task sched_inv_fail_task)
next
  case (SubmitDag nm ts)
  then show ?thesis using assms
    by (simp add: handle_submit_dag_def Let_def schedule_dag_tasks_inv)
qed (use assms in \<open>simp_all add: handle_register_node_def handle_heartbeat_def
      handle_get_status_def handle_get_dag_status_def Let_def split: option.splits\<close>)

lemma step_inv: "sched_inv (scheduler s) \<Longrightarrow> sched_inv (scheduler (step s ev))"
  by (cases ev) (simp_all add: process_message_inv scheduler_loop_tick_inv health_check_inv)

lemma run_snoc: "run (evs @ [ev]) = step (run evs) ev"
  by (simp add: run_def)

lemma run_inv: "sched_inv (scheduler (run evs))"
proof (induction evs rule: rev_induct)
  case Nil
  then show ?case by (simp add: run_def ControllerNode_init_def sched_inv_init)
next
  case (snoc ev evs)
  then show ?case by (simp add: run_snoc step_inv)
qed

section \<open>Dispatch by \<open>get_task\<close>\<close>

text \<open>Unfolding these evaluates the model on concrete inputs.\<close>

lemmas model_defs =
  run_def ControllerNode_init_def TaskScheduler_init_def
  handle_register_node_def handle_heartbeat_def handle_get_task_def handle_task_result_def
  handle_submit_dag_def handle_get_status_def handle_get_dag_status_def
  mark_busy_def mark_idle_def apply_dag_result_def truthy_id_def
  schedule_dag_tasks_def schedule_step_def add_task_def get_next_task_def complete_task_def
  fail_task_def DAG_init_def build_dependencies_def declared_deps_def get_ready_tasks_def
  update_task_result_def falsy_time_def Node_init_def update_heartbeat_def is_alive_def
  dict_contains_def dict_get_def dict_keys_def scheduler_loop_tick_def health_check_def
  mk_task_def mk_env_def mk_result_def stamped_def latest_record_def Let_def

lemma handle_get_task_nonempty:
  assumes "sched_inv (scheduler s)" "task_queue (scheduler s) = t # q"
  shows "handle_get_task e nid s =
           (Reply (SuccessTask (Some t)),
            mark_busy nid t (s\<lparr>scheduler := (scheduler s)\<lparr>task_queue := q,
                pending_tasks := AList.delete (task_id t) (pending_tasks (scheduler s)),
                running_tasks := AList.update (task_id t)
                   \<lparr>ti_node_id = nid, ti_task = t, ti_start_time = env_now e\<rparr>
                   (running_tasks (scheduler s))\<rparr>\<rparr>))"
  by (simp add: handle_get_task_def get_next_task_nonempty [OF assms])

lemma handle_get_task_empty:
  "task_queue (scheduler s) = [] \<Longrightarrow> handle_get_task e nid s = (Reply (SuccessTask None), s)"
  by (simp add: handle_get_task_def get_next_task_def)

lemma dags_mark_busy [simp]: "dags (mark_busy nid t s) = dags s"
  by (simp add: mark_busy_def split: option.splits)

text \<open>
  Claim C6. In every state that a run of the Controller reaches, \<open>get_task\<close> with an
  empty \<open>ready_queue\<close> answers \<open>status = success\<close>, \<open>task = null\<close> and changes nothing;
  with a non-empty \<open>ready_queue\<close> it answers \<open>status = success\<close> with the head of the
  queue, leaves the rest of the queue, deletes the head's id from \<open>pending_index\<close>,
  stores it in \<open>in_flight\<close> with the calling worker's id and the current time, leaves
  the DAGs table alone and marks the worker busy if it is registered.
\<close>

theorem C6_get_task:
  "(task_queue (scheduler (run evs)) = [] \<longrightarrow>
      process_message e (GetTask nid) (run evs) = (Reply (SuccessTask None), run evs)) \<and>
   (\<forall>t q. task_queue (scheduler (run evs)) = t # q \<longrightarrow>
      (\<exists>s'. process_message e (GetTask nid) (run evs) = (Reply (SuccessTask (Some t)), s') \<and>
            task_queue (scheduler s') = q \<and>
            pending_tasks (scheduler s') =
              AList.delete (task_id t) (pending_tasks (scheduler (run evs))) \<and>
            map_of (pending_tasks (scheduler s')) (task_id t) = None \<and>
            running_tasks (scheduler s') =
              AList.update (task_id t)
                \<lparr>ti_node_id = nid, ti_task = t, ti_start_time = env_now e\<rparr>
                (running_tasks (scheduler (run evs))) \<and>
            map_of (running_tasks (scheduler s')) (task_id t) =
              Some \<lparr>ti_node_id = nid, ti_task = t, ti_start_time = env_now e\<rparr> \<and>
            dags s' = dags (run evs) \<and>
            nodes s' = nodes (mark_busy nid t (run evs)))) \<and>
   response_status (SuccessTask x) = ''success''"
proof -
  have a: "task_queue (scheduler (run evs)) = [] \<longrightarrow>
      process_message e (GetTask nid) (run evs) = (Reply (SuccessTask None), run evs)"
    by (simp add: handle_get_task_empty)
  have b: "\<exists>s'. process_message e (GetTask nid) (run evs) = (Reply (SuccessTask (Some t)), s') \<and>
            task_queue (scheduler s') = q \<and>
            pending_tasks (scheduler s') =
              AList.delete (task_id t) (pending_tasks (scheduler (run evs))) \<and>
            map_of (pending_tasks (scheduler s')) (task_id t) = None \<and>
            running_tasks (scheduler s') =
              AList.update (task_id t)
                \<lparr>ti_node_id = nid, ti_task = t, ti_start_time = env_now e\<rparr>
                (running_tasks (scheduler (run evs))) \<and>
            map_of (running_tasks (scheduler s')) (task_id t) =
              Some \<lparr>ti_node_id = nid, ti_task = t, ti_start_time = env_now e\<rparr> \<and>
            dags s' = dags (run evs) \<and>
            nodes s' = nodes (mark_busy nid t (run evs))"
    if q: "task_queue (scheduler (run evs)) = t # q" for t q
    unfolding process_message.simps handle_get_task_nonempty [OF run_inv q]
    by (simp add: update_conv' delete_conv' mark_busy_def split: option.splits)
  show ?thesis using a b by simp
qed

lemma ex_two_roots_queue:
  "task_queue (scheduler (run ex_two_roots)) = [stamped ''t1'' ''d1'', stamped ''t2'' ''d1'']"
  by (simp add: model_defs ex_two_roots_def)

theorem C6_get_task_witness:
  "task_queue (scheduler (run [])) = [] \<and>
   process_message (mk_env 2 ''u'') (GetTask ''w1'') (run []) =
     (Reply (SuccessTask None), run []) \<and>
   task_queue (scheduler (run ex_two_roots)) = [stamped ''t1'' ''d1'', stamped ''t2'' ''d1''] \<and>
   fst (process_message (mk_env 2 ''u'') (GetTask ''w1'') (run ex_two_roots)) =
     Reply (SuccessTask (Some (stamped ''t1'' ''d1''))) \<and>
   task_queue (scheduler (snd (process_message (mk_env 2 ''u'') (GetTask ''w1'')
     (run ex_two_roots)))) = [stamped ''t2'' ''d1'']"
proof -
  have e: "task_queue (scheduler (run [])) = []"
    by (simp add: run_def ControllerNode_init_def TaskScheduler_init_def)
  from C6_get_task [of "[]" "mk_env 2 ''u''" "''w1''", THEN conjunct1, rule_format, OF e]
  have a: "process_message (mk_env 2 ''u'') (GetTask ''w1'') (run []) =
     (Reply (SuccessTask None), run [])" .
  from C6_get_task [of ex_two_roots "mk_env 2 ''u''" "''w1''", THEN conjunct2, THEN conjunct1,
      rule_format, OF ex_two_roots_queue]
  obtain s' where
    "process_message (mk_env 2 ''u'') (GetTask ''w1'') (run ex_two_roots) =
       (Reply (SuccessTask (Some (stamped ''t1'' ''d1''))), s')"
    "task_queue (scheduler s') = [stamped ''t2'' ''d1'']"
    by blast
  then show ?thesis using e a ex_two_roots_queue by simp
qed

text \<open>
  Claim C9. In every state that a run reaches, a \<open>get_task\<close> whose \<open>node_id\<close> is not a
  key of the Workers table (registered or not makes no difference to the scheduler)
  still takes the head of a non-empty \<open>ready_queue\<close>, records it in \<open>in_flight\<close> under
  that \<open>node_id\<close> and returns it with status \<open>success\<close>; the Workers table is left as it
  was, so the new \<open>in_flight\<close> entry names a worker that the table does not hold.
\<close>

theorem C9_unregistered_get_task:
  assumes "map_of (nodes (run evs)) nid = None" and "task_queue (scheduler (run evs)) = t # q"
  shows "\<exists>s'. process_message e (GetTask nid) (run evs) = (Reply (SuccessTask (Some t)), s') \<and>
              response_status (SuccessTask (Some t)) = ''success'' \<and>
              task_queue (scheduler s') = q \<and>
              map_of (running_tasks (scheduler s')) (task_id t) =
                Some \<lparr>ti_node_id = nid, ti_task = t, ti_start_time = env_now e\<rparr> \<and>
              nodes s' = nodes (run evs) \<and>
              map_of (nodes s') nid = None"
  unfolding process_message.simps handle_get_task_nonempty [OF run_inv assms(2)]
  using assms(1) by (simp add: update_conv' mark_busy_def)

lemma ex_ghost_state:
  "map_of (nodes (run (tl ex_two_roots))) ''ghost'' = None"
  "task_queue (scheduler (run (tl ex_two_roots))) = [stamped ''t1'' ''d1'', stamped ''t2'' ''d1'']"
  by (simp_all add: model_defs ex_two_roots_def)

theorem C9_unregistered_get_task_witness:
  "map_of (nodes (run (tl ex_two_roots))) ''ghost'' = None \<and>
   task_queue (scheduler (run (tl ex_two_roots))) =
     [stamped ''t1'' ''d1'', stamped ''t2'' ''d1''] \<and>
   (\<exists>s'. process_message (mk_env 2 ''u'') (GetTask ''ghost'') (run (tl ex_two_roots)) =
           (Reply (SuccessTask (Some (stamped ''t1'' ''d1''))), s') \<and>
         map_of (running_tasks (scheduler s')) ''t1'' =
           Some \<lparr>ti_node_id = ''ghost'', ti_task = stamped ''t1'' ''d1'', ti_start_time = 2\<rparr> \<and>
         map_of (nodes s') ''ghost'' = None)"
proof -
  have t: "task_id (stamped ''t1'' ''d1'') = ''t1''" "env_now (mk_env 2 ''u'') = 2"
    by (simp_all add: stamped_def mk_task_def mk_env_def)
  from C9_unregistered_get_task [OF ex_ghost_state, of "mk_env 2 ''u''"]
  show ?thesis using ex_ghost_state unfolding t by blast
qed

section \<open>The enqueue guard is keyed by the bare task id\<close>

lemma schedule_step_blocked:
  assumes "tid \<in> fst ` set (pending_tasks sch) \<union> fst ` set (running_tasks sch)"
  shows "filter (\<lambda>t. task_id t = tid) (task_queue (schedule_step did sch u)) =
           filter (\<lambda>t. task_id t = tid) (task_queue sch) \<and>
         map_of (pending_tasks (schedule_step did sch u)) tid = map_of (pending_tasks sch) tid \<and>
         running_tasks (schedule_step did sch u) = running_tasks sch \<and>
         tid \<in> fst ` set (pending_tasks (schedule_step did sch u)) \<union>
               fst ` set (running_tasks (schedule_step did sch u))"
proof (cases "task_id u = tid")
  case True
  then show ?thesis using assms by (auto simp: schedule_step_def dict_contains_iff)
next
  case False
  then show ?thesis using assms
    by (auto simp: schedule_step_def add_task_def Let_def update_conv' dom_update)
qed

lemma foldl_schedule_blocked:
  assumes "tid \<in> fst ` set (pending_tasks sch) \<union> fst ` set (running_tasks sch)"
  shows "filter (\<lambda>t. task_id t = tid) (task_queue (foldl (schedule_step did) sch ts)) =
           filter (\<lambda>t. task_id t = tid) (task_queue sch) \<and>
         map_of (pending_tasks (foldl (schedule_step did) sch ts)) tid =
           map_of (pending_tasks sch) tid \<and>
         running_tasks (foldl (schedule_step did) sch ts) = running_tasks sch"
  using assms
proof (induction ts arbitrary: sch)
  case Nil
  then show ?case by simp
next
  case (Cons u ts)
  note st = schedule_step_blocked [OF Cons.prems, of did u]
  then have "tid \<in> fst ` set (pending_tasks (schedule_step did sch u)) \<union>
                   fst ` set (running_tasks (schedule_step did sch u))"
    by (elim conjE)
  note ih = Cons.IH [OF this]
  have "filter (\<lambda>t. task_id t = tid)
          (task_queue (foldl (schedule_step did) (schedule_step did sch u) ts)) =
        filter (\<lambda>t. task_id t = tid) (task_queue sch)"
    using st ih by (elim conjE) (rule trans)
  moreover have "map_of (pending_tasks (foldl (schedule_step did) (schedule_step did sch u) ts)) tid =
        map_of (pending_tasks sch) tid"
    using st ih by (elim conjE) (rule trans)
  moreover have "running_tasks (foldl (schedule_step did) (schedule_step did sch u) ts) =
        running_tasks sch"
    using st ih by (elim conjE) (rule trans)
  ultimately show ?case by (simp only: foldl_Cons simp_thms)
qed

text \<open>
  Claim C10. The guard of \<open>_schedule_dag_tasks\<close> looks a task up in \<open>pending_tasks\<close>
  and \<open>running_tasks\<close> by its bare id. So while an id \<open>tid\<close> is a key of either map
  (put there for whichever DAG), evaluating any DAG \<open>did\<close> enqueues no task with the
  id \<open>tid\<close>: the queue entries bearing that id, and what the two maps hold for it, are
  the same after the evaluation as before, whether or not the DAG has a ready task of
  that id.
\<close>

theorem C10_shared_id_blocks:
  assumes "dict_contains tid (pending_tasks (scheduler s)) \<or>
           dict_contains tid (running_tasks (scheduler s))"
  shows "filter (\<lambda>t. task_id t = tid) (task_queue (scheduler (schedule_dag_tasks did s))) =
           filter (\<lambda>t. task_id t = tid) (task_queue (scheduler s)) \<and>
         map_of (pending_tasks (scheduler (schedule_dag_tasks did s))) tid =
           map_of (pending_tasks (scheduler s)) tid \<and>
         map_of (running_tasks (scheduler (schedule_dag_tasks did s))) tid =
           map_of (running_tasks (scheduler s)) tid"
proof (cases "map_of (dags s) did")
  case None
  then show ?thesis by (simp add: schedule_dag_tasks_def)
next
  case (Some d)
  from assms have "tid \<in> fst ` set (pending_tasks (scheduler s)) \<union>
                         fst ` set (running_tasks (scheduler s))"
    by (auto simp: dict_contains_iff)
  from foldl_schedule_blocked [OF this, of did "get_ready_tasks d"] Some
  show ?thesis by (simp add: schedule_dag_tasks_def)
qed

lemma ex_shared_id_state:
  "dict_contains ''a'' (pending_tasks (scheduler (run ex_shared_id)))"
  "task_queue (scheduler (run ex_shared_id)) = [stamped ''a'' ''d1'']"
  "map_option get_ready_tasks (map_of (dags (run ex_shared_id)) ''d2'') = Some [mk_task ''a'' None]"
  by (simp_all add: model_defs ex_shared_id_def)

text \<open>
  Two DAGs \<open>d1\<close> and \<open>d2\<close> each hold a root task \<open>a\<close>. \<open>d1\<close>'s \<open>a\<close> is pending, \<open>d2\<close>'s
  \<open>a\<close> is ready, and evaluating \<open>d2\<close> leaves \<open>d1\<close>'s \<open>a\<close> the only \<open>a\<close> in the queue.
\<close>

theorem C10_shared_id_blocks_witness:
  "dict_contains ''a'' (pending_tasks (scheduler (run ex_shared_id))) \<and>
   map_option get_ready_tasks (map_of (dags (run ex_shared_id)) ''d2'') =
     Some [mk_task ''a'' None] \<and>
   filter (\<lambda>t. task_id t = ''a'')
     (task_queue (scheduler (schedule_dag_tasks ''d2'' (run ex_shared_id)))) =
     [stamped ''a'' ''d1'']"
proof -
  have "filter (\<lambda>t. task_id t = ''a'')
     (task_queue (scheduler (schedule_dag_tasks ''d2'' (run ex_shared_id)))) =
     filter (\<lambda>t. task_id t = ''a'') (task_queue (scheduler (run ex_shared_id)))"
    using C10_shared_id_blocks [of "''a''" "run ex_shared_id" "''d2''"] ex_shared_id_state(1)
    by blast
  then show ?thesis using ex_shared_id_state
    by (simp add: stamped_def mk_task_def)
qed

section \<open>The DAGs table along a run\<close>

lemma dags_mark_idle [simp]: "dags (mark_idle now nid tid r s) = dags s"
  by (simp add: mark_idle_def split: option.splits)

lemma dags_schedule_dag_tasks [simp]: "dags (schedule_dag_tasks did s) = dags s"
  by (simp add: schedule_dag_tasks_def split: option.splits)

lemma dags_handle_get_task [simp]: "dags (snd (handle_get_task e nid s)) = dags s"
  by (simp add: handle_get_task_def split: prod.splits sum.splits option.splits)

lemma dags_scheduler_loop_tick [simp]: "dags (scheduler_loop_tick s) = dags s"
proof -
  have "dags (foldl (\<lambda>s' did. schedule_dag_tasks did s') s ds) = dags s" for ds
    by (induction ds arbitrary: s) simp_all
  then show ?thesis by (simp add: scheduler_loop_tick_def)
qed

lemma dags_remove_dead_nodes [simp]: "dags (snd (remove_dead_nodes ns s)) = dags s"
proof (induction ns arbitrary: s)
  case Nil
  then show ?case by simp
next
  case (Cons nid ns)
  obtain res sch' where e:
    "requeue_running nid (length (running_tasks (scheduler s)))
       (running_tasks (scheduler s)) (scheduler s) = (res, sch')"
    by (cases "requeue_running nid (length (running_tasks (scheduler s)))
                 (running_tasks (scheduler s)) (scheduler s)")
  show ?case using Cons e by (cases res) simp_all
qed

lemma dags_health_check [simp]: "dags (snd (health_check now s)) = dags s"
  by (simp add: health_check_def)

lemma dags_handle_task_result:
  "dags (snd (handle_task_result e nid tid r s)) = dags (apply_dag_result (env_now e) tid r s)"
proof -
  have "dags (apply_dag_result now tid r (s\<lparr>scheduler := sch\<rparr>)) = dags (apply_dag_result now tid r s)"
    for now sch
    by (simp add: apply_dag_result_def split: option.splits)
  then show ?thesis by (simp add: handle_task_result_def Let_def)
qed

lemma dags_handle_submit_dag:
  "dags (snd (handle_submit_dag e nm ts s)) =
     AList.update (env_uuid e)
       (DAG_init (env_now e) (env_uuid e) (case nm of None \<Rightarrow> ''unnamed'' | Some n \<Rightarrow> n) ts)
       (dags s)"
  by (simp add: handle_submit_dag_def Let_def)

text \<open>What a step does to the DAGs table.\<close>

lemma dags_step:
  "dags (step s ev) =
     (case ev of
        Request e (TaskResult nid tid r) \<Rightarrow> dags (apply_dag_result (env_now e) tid r s)
      | Request e (SubmitDag nm ts) \<Rightarrow>
          AList.update (env_uuid e)
            (DAG_init (env_now e) (env_uuid e) (case nm of None \<Rightarrow> ''unnamed'' | Some n \<Rightarrow> n) ts)
            (dags s)
      | _ \<Rightarrow> dags s)"
proof (cases ev)
  case (Request e m)
  then show ?thesis
    by (cases m)
       (simp_all add: dags_handle_task_result dags_handle_submit_dag handle_register_node_def
          handle_heartbeat_def handle_get_status_def handle_get_dag_status_def Let_def
          split: option.splits)
qed simp_all

lemma task_results_update_task_result [simp]:
  "task_results (update_task_result now tid r d) = AList.update tid r (task_results d)"
  by (simp add: update_task_result_def Let_def)

lemma tasks_update_task_result [simp]:
  "tasks (update_task_result now tid r d) = tasks d"
  by (simp add: update_task_result_def Let_def)

lemma dag_inv_init: "dag_inv (DAG_init now did nm ts)"
  by (simp add: dag_inv_def DAG_init_def)

lemma dag_inv_update:
  assumes "dag_inv d"
  shows "dag_inv (update_task_result now tid r d)"
proof -
  have l: "length (AList.update tid r (task_results d)) = length (task_results d) \<or>
           length (AList.update tid r (task_results d)) = Suc (length (task_results d))"
    by (simp add: length_update)
  have dist: "distinct (map fst (AList.update tid r (task_results d)))"
    using assms by (simp add: dag_inv_def distinct_update)
  show ?thesis
    using assms l dist unfolding dag_inv_def update_task_result_def Let_def
    by (auto split: if_splits)
qed

lemma all_dags_inv_update:
  assumes "\<forall>(k, d) \<in> set al. dag_inv d" "dag_inv d'"
  shows "\<forall>(k, d) \<in> set (AList.update did d' al). dag_inv d"
  using assms set_update_subset [of did d' al] by blast

lemma apply_dag_result_inv:
  assumes "\<forall>(k, d) \<in> set (dags s). dag_inv d"
  shows "\<forall>(k, d) \<in> set (dags (apply_dag_result now tid r s)). dag_inv d"
proof (cases "res_dag_id r")
  case None
  then show ?thesis using assms by (simp add: apply_dag_result_def)
next
  case (Some did)
  show ?thesis
  proof (cases "map_of (dags s) did")
    case None
    then show ?thesis using assms Some by (simp add: apply_dag_result_def)
  next
    case d: (Some d)
    then have "(did, d) \<in> set (dags s)" by (rule map_of_SomeD)
    with assms have "dag_inv d" by blast
    then have "dag_inv (update_task_result now tid r d)" by (rule dag_inv_update)
    from all_dags_inv_update [OF assms this]
    show ?thesis using Some d assms by (simp add: apply_dag_result_def)
  qed
qed

lemma step_dags_inv:
  assumes "\<forall>(k, d) \<in> set (dags s). dag_inv d"
  shows "\<forall>(k, d) \<in> set (dags (step s ev)). dag_inv d"
proof (cases ev)
  case (Request e m)
  show ?thesis
  proof (cases m)
    case (TaskResult nid tid r)
    then show ?thesis using Request apply_dag_result_inv [OF assms]
      unfolding dags_step by simp
  next
    case (SubmitDag nm ts)
    then show ?thesis using Request all_dags_inv_update [OF assms dag_inv_init]
      unfolding dags_step by simp
  qed (use assms Request in \<open>simp_all add: dags_step del: step.simps\<close>)
qed (use assms in \<open>simp_all add: dags_step del: step.simps\<close>)

lemma run_dags_inv: "\<forall>(k, d) \<in> set (dags (run evs)). dag_inv d"
proof (induction evs rule: rev_induct)
  case Nil
  then show ?case by (simp add: run_def ControllerNode_init_def)
next
  case (snoc ev evs)
  then show ?case unfolding run_snoc by (rule step_dags_inv)
qed

text \<open>Every DAG of a reachable state has its dependency map as \<open>DAG.__init__\<close> built it.\<close>

lemma run_dag_dependencies:
  assumes "map_of (dags (run evs)) did = Some d"
  shows "task_dependencies d = build_dependencies (tasks d)"
proof -
  from assms have "(did, d) \<in> set (dags (run evs))" by (rule map_of_SomeD)
  with run_dags_inv have "dag_inv d" by blast
  then show ?thesis by (simp add: dag_inv_def)
qed

lemma distinct_keys_length_le:
  assumes "distinct (map fst al)" "fst ` set al \<subseteq> f ` set ts"
  shows "length al \<le> length ts"
proof -
  have "length al = card (fst ` set al)"
    using assms(1) by (metis distinct_card length_map set_map)
  also have "\<dots> \<le> card (f ` set ts)" using assms(2) by (simp add: card_mono)
  also have "\<dots> \<le> length ts" by (metis card_length length_map set_map)
  finally show ?thesis .
qed

text \<open>
  Claim C3, as the code has it. For every DAG \<open>D\<close> in the DAGs table of a state that a
  run reaches: \<open>completed_at\<close> is set exactly when \<open>status\<close> is \<open>completed\<close>; if \<open>D\<close>
  has at least one task, \<open>status\<close> is \<open>completed\<close> exactly when
  \<open>|task_results| \<ge> |tasks|\<close>; and if moreover every key of \<open>task_results\<close> is the
  id of a task of \<open>D\<close>, exactly when \<open>|task_results| = |tasks|\<close>.
\<close>

theorem C3_completed_stamp:
  assumes "map_of (dags (run evs)) did = Some d"
  shows "(completed_at d \<noteq> None \<longleftrightarrow> dag_status d = Completed) \<and>
         (tasks d \<noteq> [] \<longrightarrow>
            (dag_status d = Completed \<longleftrightarrow> length (tasks d) \<le> length (task_results d))) \<and>
         (tasks d \<noteq> [] \<and> set (dict_keys (task_results d)) \<subseteq> task_id ` set (tasks d) \<longrightarrow>
            (dag_status d = Completed \<longleftrightarrow> length (task_results d) = length (tasks d)))"
proof -
  from assms have "(did, d) \<in> set (dags (run evs))" by (rule map_of_SomeD)
  with run_dags_inv have inv: "dag_inv d" by blast
  have "length (task_results d) \<le> length (tasks d)"
    if "set (dict_keys (task_results d)) \<subseteq> task_id ` set (tasks d)"
    using inv that by (intro distinct_keys_length_le [where f = task_id])
      (simp_all add: dag_inv_def dict_keys_def)
  with inv show ?thesis unfolding dag_inv_def by auto
qed


lemma ex_failed_once_dag:
  "map_of (dags (run ex_failed_once)) ''d1'' =
     Some (update_task_result 3 ''t1'' (mk_result False ''boom'' ''d1'')
             (DAG_init 1 ''d1'' ''retry'' [mk_task ''t1'' None]))"
  by (simp add: model_defs ex_failed_once_def)

lemma ex_two_roots_dag:
  "map_of (dags (run ex_two_roots)) ''d1'' =
     Some (DAG_init 1 ''d1'' ''two'' [mk_task ''t1'' None, mk_task ''t2'' None])"
  by (simp add: model_defs ex_two_roots_def)

text \<open>
  A two-task DAG before any result (not completed, no \<open>completed_at\<close>) and a one-task
  DAG after its result (completed, \<open>completed_at\<close> set).
\<close>

theorem C3_completed_stamp_witness:
  "map_of (dags (run ex_two_roots)) ''d1'' =
     Some (DAG_init 1 ''d1'' ''two'' [mk_task ''t1'' None, mk_task ''t2'' None]) \<and>
   dag_status (DAG_init 1 ''d1'' ''two'' [mk_task ''t1'' None, mk_task ''t2'' None]) \<noteq> Completed \<and>
   completed_at (DAG_init 1 ''d1'' ''two'' [mk_task ''t1'' None, mk_task ''t2'' None]) = None \<and>
   map_of (dags (run ex_failed_once)) ''d1'' =
     Some (update_task_result 3 ''t1'' (mk_result False ''boom'' ''d1'')
             (DAG_init 1 ''d1'' ''retry'' [mk_task ''t1'' None])) \<and>
   dag_status (update_task_result 3 ''t1'' (mk_result False ''boom'' ''d1'')
             (DAG_init 1 ''d1'' ''retry'' [mk_task ''t1'' None])) = Completed \<and>
   completed_at (update_task_result 3 ''t1'' (mk_result False ''boom'' ''d1'')
             (DAG_init 1 ''d1'' ''retry'' [mk_task ''t1'' None])) \<noteq> None"
proof -
  note a = C3_completed_stamp [OF ex_two_roots_dag]
  note b = C3_completed_stamp [OF ex_failed_once_dag]
  have a1: "tasks (DAG_init 1 ''d1'' ''two'' [mk_task ''t1'' None, mk_task ''t2'' None]) \<noteq> []"
       "\<not> length (tasks (DAG_init 1 ''d1'' ''two'' [mk_task ''t1'' None, mk_task ''t2'' None]))
          \<le> length (task_results (DAG_init 1 ''d1'' ''two'' [mk_task ''t1'' None, mk_task ''t2'' None]))"
    by (simp_all add: DAG_init_def)
  have b1: "tasks (update_task_result 3 ''t1'' (mk_result False ''boom'' ''d1'')
             (DAG_init 1 ''d1'' ''retry'' [mk_task ''t1'' None])) \<noteq> []"
       "length (tasks (update_task_result 3 ''t1'' (mk_result False ''boom'' ''d1'')
             (DAG_init 1 ''d1'' ''retry'' [mk_task ''t1'' None])))
          \<le> length (task_results (update_task_result 3 ''t1'' (mk_result False ''boom'' ''d1'')
             (DAG_init 1 ''d1'' ''retry'' [mk_task ''t1'' None])))"
    by (simp_all add: DAG_init_def)
  from a a1 have "dag_status (DAG_init 1 ''d1'' ''two'' [mk_task ''t1'' None, mk_task ''t2'' None])
      \<noteq> Completed"
    "completed_at (DAG_init 1 ''d1'' ''two'' [mk_task ''t1'' None, mk_task ''t2'' None]) = None"
    by blast+
  moreover from b b1 have "dag_status (update_task_result 3 ''t1'' (mk_result False ''boom'' ''d1'')
             (DAG_init 1 ''d1'' ''retry'' [mk_task ''t1'' None])) = Completed"
    "completed_at (update_task_result 3 ''t1'' (mk_result False ''boom'' ''d1'')
             (DAG_init 1 ''d1'' ''retry'' [mk_task ''t1'' None])) \<noteq> None"
    by blast+
  ultimately show ?thesis using ex_two_roots_dag ex_failed_once_dag by blast
qed

text \<open>
  The claim as worded fails for a DAG submitted with an empty task list:
  \<open>|task_results| = |tasks| = 0\<close> from the start, while \<open>status\<close> is \<open>pending\<close> and
  \<open>completed_at\<close> is unset.
\<close>

theorem C3_counterexample:
  "map_of (dags (run ex_empty_dag)) ''d1'' = Some (DAG_init 0 ''d1'' ''empty'' []) \<and>
   length (task_results (DAG_init 0 ''d1'' ''empty'' [])) =
     length (tasks (DAG_init 0 ''d1'' ''empty'' [])) \<and>
   dag_status (DAG_init 0 ''d1'' ''empty'' []) = Pending \<and>
   completed_at (DAG_init 0 ''d1'' ''empty'' []) = None"
  by (simp add: model_defs ex_empty_dag_def)

text \<open>
  \<open>task_result\<close> stores a record under any task id, so \<open>|task_results|\<close> can pass
  \<open>|tasks|\<close>; the DAG is completed by then and stays so.
\<close>

lemma foreign_result_overshoots:
  "map_option (\<lambda>d. (dag_status d, length (tasks d), dict_keys (task_results d)))
     (map_of (dags (run ex_foreign_result)) ''d1'') = Some (Completed, 1, [''t1'', ''zz''])"
  by (simp add: model_defs ex_foreign_result_def)

section \<open>Result records along a run\<close>

lemma step_keeps_record:
  assumes "map_of (dags s) did = Some d" and "map_of (task_results d) tid = Some r"
    and "\<not> replaces_dag ev did"
  shows "\<exists>d'. map_of (dags (step s ev)) did = Some d' \<and>
              map_of (task_results d') tid =
                Some (case reported ev did tid of None \<Rightarrow> r | Some r' \<Rightarrow> r')"
proof (cases ev)
  case (Request e m)
  show ?thesis
  proof (cases m)
    case (TaskResult nid tid' r')
    show ?thesis
    proof (cases "res_dag_id r' = Some did \<and> did \<noteq> []")
      case True
      then show ?thesis using assms Request TaskResult
        unfolding dags_step by (simp add: apply_dag_result_def update_conv')
    next
      case False
      then have "map_of (dags (apply_dag_result (env_now e) tid' r' s)) did = Some d"
        using assms(1)
        by (auto simp: apply_dag_result_def update_conv' split: option.splits)
      then show ?thesis using assms False Request TaskResult
        unfolding dags_step by auto
    qed
  next
    case (SubmitDag nm ts)
    then show ?thesis using assms Request
      unfolding dags_step by (simp add: update_conv')
  qed (use assms Request in \<open>simp_all add: dags_step del: step.simps\<close>)
qed (use assms in \<open>simp_all add: dags_step del: step.simps\<close>)

text \<open>
  Claim C5, as the code has it. Take a state in which DAG \<open>did\<close> holds a record \<open>r\<close>
  under task id \<open>tid\<close>, and any sequence of events in which no \<open>submit_dag\<close> is given
  the id \<open>did\<close> again. After the events the DAG still holds a record under \<open>tid\<close>: the
  one carried by the latest \<open>task_result\<close> among them that names \<open>tid\<close> and \<open>did\<close>, or
  \<open>r\<close> itself if there was none. Keys are never removed; a record is replaced by a later
  report for the same task.
\<close>

theorem C5_result_keys_persist:
  assumes "map_of (dags s) did = Some d" and "map_of (task_results d) tid = Some r"
    and "\<forall>ev \<in> set evs. \<not> replaces_dag ev did"
  shows "\<exists>d'. map_of (dags (foldl step s evs)) did = Some d' \<and>
              map_of (task_results d') tid = Some (latest_record did tid r evs)"
  using assms
proof (induction evs arbitrary: s d r)
  case Nil
  then show ?case by (simp add: latest_record_def)
next
  case (Cons ev evs)
  from Cons.prems have "\<not> replaces_dag ev did" by simp
  from step_keeps_record [OF Cons.prems(1,2) this]
  obtain d' where d': "map_of (dags (step s ev)) did = Some d'"
    "map_of (task_results d') tid =
       Some (case reported ev did tid of None \<Rightarrow> r | Some r' \<Rightarrow> r')"
    by blast
  from Cons.prems have "\<forall>ev \<in> set evs. \<not> replaces_dag ev did" by simp
  from Cons.IH [OF d' this] show ?case by (simp add: latest_record_def)
qed

lemma ex_failed_once_record:
  "map_of (task_results (update_task_result 3 ''t1'' (mk_result False ''boom'' ''d1'')
             (DAG_init 1 ''d1'' ''retry'' [mk_task ''t1'' None]))) ''t1'' =
     Some (mk_result False ''boom'' ''d1'')"
  by (simp add: update_conv')

text \<open>
  Task \<open>t1\<close> fails, is re-queued, dispatched again and succeeds: the record under
  \<open>t1\<close> is still there and is now the second report.
\<close>

theorem C5_result_keys_persist_witness:
  "map_of (dags (run ex_failed_once)) ''d1'' =
     Some (update_task_result 3 ''t1'' (mk_result False ''boom'' ''d1'')
             (DAG_init 1 ''d1'' ''retry'' [mk_task ''t1'' None])) \<and>
   filter (\<lambda>ev. replaces_dag ev ''d1'') ex_retried = [] \<and>
   (\<exists>d'. map_of (dags (foldl step (run ex_failed_once) ex_retried)) ''d1'' = Some d' \<and>
         map_of (task_results d') ''t1'' = Some (mk_result True ''ok'' ''d1''))"
proof -
  have h: "\<forall>ev \<in> set ex_retried. \<not> replaces_dag ev ''d1''"
    by (simp add: ex_retried_def)
  have l: "latest_record ''d1'' ''t1'' (mk_result False ''boom'' ''d1'') ex_retried =
             mk_result True ''ok'' ''d1''"
    by (simp add: latest_record_def ex_retried_def mk_result_def)
  from C5_result_keys_persist [OF ex_failed_once_dag ex_failed_once_record h]
  have "\<exists>d'. map_of (dags (foldl step (run ex_failed_once) ex_retried)) ''d1'' = Some d' \<and>
         map_of (task_results d') ''t1'' = Some (mk_result True ''ok'' ''d1'')"
    unfolding l .
  moreover have "filter (\<lambda>ev. replaces_dag ev ''d1'') ex_retried = []"
    by (simp add: ex_retried_def)
  ultimately show ?thesis using ex_failed_once_dag by blast
qed

text \<open>
  The claim as worded fails on that run: the record stored under \<open>t1\<close> after the
  failure is changed by the \<open>task_result\<close> of the retry.
\<close>

theorem C5_counterexample:
  "map_option task_results (map_of (dags (run ex_failed_once)) ''d1'') =
     Some [(''t1'', mk_result False ''boom'' ''d1'')] \<and>
   map_option task_results (map_of (dags (run (ex_failed_once @ ex_retried))) ''d1'') =
     Some [(''t1'', mk_result True ''ok'' ''d1'')] \<and>
   mk_result False ''boom'' ''d1'' \<noteq> mk_result True ''ok'' ''d1''"
  by (simp add: model_defs ex_failed_once_def ex_retried_def)

section \<open>The reaper\<close>

lemma requeue_running_size_changed:
  "length (running_tasks sch) \<noteq> used \<Longrightarrow>
   requeue_running nid used items sch = (Some RuntimeError, sch)"
  by (cases items) auto

lemma requeue_running_no_match:
  assumes "\<forall>(tid, info) \<in> set items. ti_node_id info \<noteq> nid"
    and "length (running_tasks sch) = used"
  shows "requeue_running nid used items sch = (None, sch)"
  using assms by (induction items) auto

lemma requeue_running_match:
  assumes "\<exists>(tid, info) \<in> set items. ti_node_id info = nid"
    and "length (running_tasks sch) = used"
    and "set items \<subseteq> set (running_tasks sch)"
  shows "fst (requeue_running nid used items sch) = Some RuntimeError"
  using assms
proof (induction items)
  case Nil
  then show ?case by simp
next
  case (Cons p items)
  obtain tid info where p: "p = (tid, info)" by (cases p)
  show ?case
  proof (cases "ti_node_id info = nid")
    case True
    from Cons.prems(3) have "tid \<in> fst ` set (running_tasks sch)" by (force simp: p)
    then have "length (AList.delete tid (running_tasks sch)) \<noteq> used"
      using length_delete_less [of tid "running_tasks sch"] Cons.prems(2) by simp
    then show ?thesis using True Cons.prems(2)
      by (simp add: p Let_def requeue_running_size_changed)
  next
    case False
    with Cons.prems(1) have "\<exists>(tid, info) \<in> set items. ti_node_id info = nid"
      by (auto simp: p)
    from Cons.IH [OF this Cons.prems(2)] Cons.prems(3) False Cons.prems(2)
    show ?thesis by (simp add: p)
  qed
qed

text \<open>
  Whenever a worker that is about to be reaped holds an in-flight entry, the reaper
  iteration ends in \<open>RuntimeError\<close> and that worker's record is still in the table.
\<close>

lemma remove_dead_nodes_raises:
  assumes "nid \<in> set ns" and "dict_contains nid (nodes s)"
    and "(tid, info) \<in> set (running_tasks (scheduler s))" and "ti_node_id info = nid"
  shows "fst (remove_dead_nodes ns s) = Some RuntimeError \<and>
         dict_contains nid (nodes (snd (remove_dead_nodes ns s)))"
  using assms
proof (induction ns arbitrary: s)
  case Nil
  then show ?case by simp
next
  case (Cons m ns)
  let ?items = "running_tasks (scheduler s)"
  show ?case
  proof (cases "dict_contains m (nodes s)")
    case False
    with Cons.prems have "nid \<in> set ns" by auto
    from Cons.IH [OF this Cons.prems(2-4)] False show ?thesis by simp
  next
    case True
    show ?thesis
    proof (cases "\<exists>(t, i) \<in> set ?items. ti_node_id i = m")
      case hit: True
      have "fst (requeue_running m (length ?items) ?items (scheduler s)) = Some RuntimeError"
        using hit by (intro requeue_running_match) simp_all
      then obtain sch' where
        "requeue_running m (length ?items) ?items (scheduler s) = (Some RuntimeError, sch')"
        by (metis prod.collapse)
      then show ?thesis using True Cons.prems(2) by simp
    next
      case miss: False
      then have e: "requeue_running m (length ?items) ?items (scheduler s) = (None, scheduler s)"
        by (intro requeue_running_no_match) auto
      from miss Cons.prems(3,4) have ne: "m \<noteq> nid" by auto
      with Cons.prems(1) have in_ns: "nid \<in> set ns" by simp
      let ?s = "s\<lparr>scheduler := scheduler s, nodes := AList.delete m (nodes s)\<rparr>"
      have c: "dict_contains nid (nodes ?s)"
        using Cons.prems(2) ne by (simp add: dict_contains_def)
      have r: "(tid, info) \<in> set (running_tasks (scheduler ?s))"
        using Cons.prems(3) by simp
      from Cons.IH [OF in_ns c r Cons.prems(4)] True e show ?thesis by simp
    qed
  qed
qed

lemma health_check_raises:
  assumes "(nid, n) \<in> set (nodes s)" and "\<not> is_alive now n"
    and "(tid, info) \<in> set (running_tasks (scheduler s))" and "ti_node_id info = nid"
  shows "fst (health_check now s) = Some RuntimeError \<and>
         dict_contains nid (nodes (snd (health_check now s)))"
proof -
  have a: "nid \<in> set (map fst (filter (\<lambda>(nid, n). \<not> is_alive now n) (nodes s)))"
    using assms(1,2) by force
  have b: "dict_contains nid (nodes s)"
    using assms(1) by (force simp: dict_contains_iff)
  from remove_dead_nodes_raises [OF a b assms(3,4)] show ?thesis
    by (simp add: health_check_def)
qed

text \<open>When no worker about to be reaped holds an in-flight entry, they are all removed.\<close>

lemma remove_dead_nodes_idle:
  assumes "\<forall>(tid, info) \<in> set (running_tasks (scheduler s)). ti_node_id info \<notin> set ns"
  shows "remove_dead_nodes ns s =
           (None, s\<lparr>nodes := foldl (\<lambda>al k. AList.delete k al) (nodes s) ns\<rparr>)"
  using assms
proof (induction ns arbitrary: s)
  case Nil
  then show ?case by simp
next
  case (Cons m ns)
  let ?items = "running_tasks (scheduler s)"
  let ?s = "s\<lparr>scheduler := scheduler s, nodes := AList.delete m (nodes s)\<rparr>"
  from Cons.prems have rest: "\<forall>(tid, info) \<in> set ?items. ti_node_id info \<notin> set ns"
    by auto
  show ?case
  proof (cases "dict_contains m (nodes s)")
    case True
    from Cons.prems
    have e: "requeue_running m (length ?items) ?items (scheduler s) = (None, scheduler s)"
      by (intro requeue_running_no_match) auto
    have "remove_dead_nodes ns ?s =
          (None, ?s\<lparr>nodes := foldl (\<lambda>al k. AList.delete k al) (nodes ?s) ns\<rparr>)"
      using rest by (intro Cons.IH) simp
    then show ?thesis using True e by simp
  next
    case False
    then have "AList.delete m (nodes s) = nodes s"
      by (simp add: dict_contains_iff)
    with Cons.IH [OF rest] False show ?thesis by simp
  qed
qed

text \<open>
  Claim C1 at a dead worker holding two in-flight tasks. \<open>w1\<close>, last heard of at time
  0, holds \<open>t1\<close> and \<open>t2\<close>; the reaper runs at time 100. The inner loop moves \<open>t1\<close> back
  and deletes it from \<open>running_tasks\<close> while iterating over that dict, so asking the
  iterator for the next item raises \<open>RuntimeError\<close>: \<open>t2\<close> stays in flight under \<open>w1\<close>
  and \<open>w1\<close>'s record stays in the Workers table.
\<close>

theorem C1_reaper_raises:
  "map_option (is_alive 100) (map_of (nodes (run ex_dead_worker)) ''w1'') = Some False \<and>
   map (\<lambda>(tid, info). (tid, ti_node_id info)) (running_tasks (scheduler (run ex_dead_worker))) =
     [(''t1'', ''w1''), (''t2'', ''w1'')] \<and>
   fst (health_check 100 (run ex_dead_worker)) = Some RuntimeError \<and>
   dict_keys (nodes (snd (health_check 100 (run ex_dead_worker)))) = [''w1''] \<and>
   map (\<lambda>(tid, info). (tid, ti_node_id info))
     (running_tasks (scheduler (snd (health_check 100 (run ex_dead_worker))))) =
     [(''t2'', ''w1'')] \<and>
   task_queue (scheduler (snd (health_check 100 (run ex_dead_worker)))) = [stamped ''t1'' ''d1'']"
  by (simp add: model_defs ex_dead_worker_def ex_two_roots_def)


section \<open>Frames of any length\<close>

lemma handle_frame_whole:
  assumes "length length_data = 4" and "int_from_bytes length_data = length payload"
  shows "handle_frame decode e s (length_data @ payload @ rest) =
           (case decode payload of
              None \<Rightarrow> (Closed, s, rest)
            | Some m \<Rightarrow>
                (case process_message e m s of
                   (Reply r, s') \<Rightarrow> (Sent r, s', rest)
                 | (Raised err, s') \<Rightarrow> (Closed, s', rest)))"
  using assms
  by (simp add: handle_frame_def recv_exact_def split: option.splits prod.splits outcome.splits)

text \<open>Two \<open>get_status\<close> frames and a stray byte: two responses, then the socket is closed.\<close>

lemma two_frames_then_close:
  "handle_connection ex_small_decode (\<lambda>k. mk_env (real k) ''u'') 0 ControllerNode_init
     ([0x00, 0x00, 0x00, 0x15] @ ex_get_status_text @
      [0x00, 0x00, 0x00, 0x15] @ ex_get_status_text @ [0x00]) =
     ([SuccessStatus [] [] 0, SuccessStatus [] [] 1], ControllerNode_init)"
  by (simp add: handle_frame_def recv_exact_def int_from_bytes_def ex_get_status_text_def
        ex_small_decode_def handle_get_status_def ControllerNode_init_def mk_env_def)

text \<open>
  Claim C8, as the code has it. The handler compares the announced length with nothing.
  For every frame whose 4-byte big-endian prefix announces the number of payload bytes
  that follow, whatever that number is, the handler reads the payload and decodes it;
  if it decodes to a request and the router answers, that response is sent and the
  connection stays open; the connection is closed without a response only if the
  payload does not decode to a request or routing raises.
\<close>

theorem C8_no_length_cap:
  "length length_data = 4 \<and> int_from_bytes length_data = length payload \<longrightarrow>
   frame_length (length_data @ payload @ rest) = length payload \<and>
   handle_frame decode e s (length_data @ payload @ rest) =
     (case decode payload of
        None \<Rightarrow> (Closed, s, rest)
      | Some m \<Rightarrow>
          (case process_message e m s of
             (Reply r, s') \<Rightarrow> (Sent r, s', rest)
           | (Raised err, s') \<Rightarrow> (Closed, s', rest)))"
  by (simp add: handle_frame_whole frame_length_def)

text \<open>A 21-byte \<open>get_status\<close> frame, followed by one more byte on the stream.\<close>

theorem C8_no_length_cap_witness:
  "length [0x00, 0x00, 0x00, 0x15 :: byte] = 4 \<and>
   int_from_bytes [0x00, 0x00, 0x00, 0x15] = length ex_get_status_text \<and>
   handle_frame ex_small_decode (mk_env 0 ''u'') ControllerNode_init
     ([0x00, 0x00, 0x00, 0x15] @ ex_get_status_text @ [0x00]) =
     (Sent (SuccessStatus [] [] 0), ControllerNode_init, [0x00])"
proof -
  have h: "length [0x00, 0x00, 0x00, 0x15 :: byte] = 4 \<and>
           int_from_bytes [0x00, 0x00, 0x00, 0x15] = length ex_get_status_text"
    by (simp add: int_from_bytes_def ex_get_status_text_def)
  from C8_no_length_cap [rule_format, OF h, of "[0x00]" ex_small_decode "mk_env 0 ''u''"
         ControllerNode_init]
  show ?thesis using h
    by (simp add: ex_small_decode_def handle_get_status_def ControllerNode_init_def mk_env_def)
qed

lemma length_ex_payload: "length ex_payload = 16777217"
  by (simp add: ex_payload_def ex_get_status_text_def)

lemma ex_prefix: "length [0x01, 0x00, 0x00, 0x01 :: byte] = 4"
  "int_from_bytes [0x01, 0x00, 0x00, 0x01] = 16777217"
  by (simp_all add: int_from_bytes_def)

text \<open>
  The claim as worded fails at a frame whose announced length is \<open>16 MiB + 1\<close>: the
  handler reads all of it and answers the \<open>get_status\<close> request.
\<close>

theorem C8_counterexample:
  "frame_length ex_oversize_frame = 16777217 \<and>
   16 * 1024 * 1024 < frame_length ex_oversize_frame \<and>
   handle_frame ex_decode (mk_env 0 ''u'') ControllerNode_init ex_oversize_frame =
     (Sent (SuccessStatus [] [] 0), ControllerNode_init, [])"
proof -
  have f: "frame_length ex_oversize_frame = 16777217"
    by (simp add: frame_length_def ex_oversize_frame_def ex_prefix)
  have "handle_frame ex_decode (mk_env 0 ''u'') ControllerNode_init
          ([0x01, 0x00, 0x00, 0x01] @ ex_payload @ []) =
        (Sent (SuccessStatus [] [] 0), ControllerNode_init, [])"
    by (subst handle_frame_whole)
       (simp_all add: ex_prefix length_ex_payload ex_decode_def handle_get_status_def
          ControllerNode_init_def mk_env_def)
  then show ?thesis using f by (simp add: ex_oversize_frame_def)
qed


section \<open>Dict keys along a run\<close>

text \<open>
  In every state that a run reaches the keys of each dict are pairwise distinct, so
  \<^const>\<open>length\<close> is \<open>len\<close>.
\<close>

lemma sched_wf_foldl_schedule:
  "distinct (map fst (pending_tasks sch)) \<and> distinct (map fst (running_tasks sch)) \<Longrightarrow>
   distinct (map fst (pending_tasks (foldl (schedule_step did) sch ts))) \<and>
   distinct (map fst (running_tasks (foldl (schedule_step did) sch ts)))"
  by (induction ts arbitrary: sch)
     (simp_all add: schedule_step_def add_task_def Let_def distinct_update)

lemma nodes_schedule_dag_tasks [simp]: "nodes (schedule_dag_tasks did s) = nodes s"
  by (simp add: schedule_dag_tasks_def split: option.splits)

lemma dicts_wf_schedule_dag_tasks: "dicts_wf s \<Longrightarrow> dicts_wf (schedule_dag_tasks did s)"
proof -
  assume a: "dicts_wf s"
  have "dicts_wf (s\<lparr>scheduler := foldl (schedule_step did) (scheduler s) ts\<rparr>)" for ts
    using a sched_wf_foldl_schedule [of "scheduler s" did ts] by (simp add: dicts_wf_def)
  then show ?thesis using a by (simp add: schedule_dag_tasks_def split: option.splits)
qed

lemma requeue_running_wf:
  "distinct (map fst (pending_tasks sch)) \<and> distinct (map fst (running_tasks sch)) \<Longrightarrow>
   distinct (map fst (pending_tasks (snd (requeue_running nid used items sch)))) \<and>
   distinct (map fst (running_tasks (snd (requeue_running nid used items sch))))"
proof (induction items arbitrary: sch)
  case Nil
  then show ?case by simp
next
  case (Cons p items)
  obtain tid info where p: "p = (tid, info)" by (cases p)
  let ?sch = "sch\<lparr>task_queue := task_queue sch @ [ti_task info],
                 pending_tasks := AList.update (task_id (ti_task info)) (ti_task info) (pending_tasks sch),
                 running_tasks := AList.delete tid (running_tasks sch)\<rparr>"
  have "distinct (map fst (pending_tasks ?sch)) \<and> distinct (map fst (running_tasks ?sch))"
    using Cons.prems by (simp add: distinct_update distinct_delete)
  from Cons.IH [OF this] Cons.IH [OF Cons.prems] Cons.prems
  show ?case by (simp add: p Let_def)
qed

lemma remove_dead_nodes_wf: "dicts_wf s \<Longrightarrow> dicts_wf (snd (remove_dead_nodes ns s))"
proof (induction ns arbitrary: s)
  case Nil
  then show ?case by simp
next
  case (Cons nid ns)
  obtain res sch' where e:
    "requeue_running nid (length (running_tasks (scheduler s)))
       (running_tasks (scheduler s)) (scheduler s) = (res, sch')"
    by (cases "requeue_running nid (length (running_tasks (scheduler s)))
                 (running_tasks (scheduler s)) (scheduler s)")
  have "distinct (map fst (pending_tasks (snd (requeue_running nid
           (length (running_tasks (scheduler s))) (running_tasks (scheduler s)) (scheduler s))))) \<and>
        distinct (map fst (running_tasks (snd (requeue_running nid
           (length (running_tasks (scheduler s))) (running_tasks (scheduler s)) (scheduler s)))))"
    using Cons.prems by (intro requeue_running_wf) (simp add: dicts_wf_def)
  then have w: "distinct (map fst (pending_tasks sch')) \<and> distinct (map fst (running_tasks sch'))"
    by (simp add: e)
  show ?case
  proof (cases "dict_contains nid (nodes s)")
    case False
    then show ?thesis using Cons by simp
  next
    case True
    show ?thesis
    proof (cases res)
      case None
      have "dicts_wf (s\<lparr>scheduler := sch', nodes := AList.delete nid (nodes s)\<rparr>)"
        using Cons.prems w by (simp add: dicts_wf_def distinct_delete)
      from Cons.IH [OF this] show ?thesis using True e None by simp
    next
      case (Some err)
      then show ?thesis using True e w Cons.prems by (simp add: dicts_wf_def)
    qed
  qed
qed

lemma process_message_wf:
  assumes "dicts_wf s"
  shows "dicts_wf (snd (process_message e m s))"
proof (cases m)
  case (GetTask nid)
  then show ?thesis using assms
    by (auto simp: handle_get_task_def get_next_task_def mark_busy_def dicts_wf_def Let_def
          distinct_update distinct_delete split: list.splits option.splits)
next
  case (TaskResult nid tid r)
  have "dicts_wf (mark_idle (env_now e) nid tid r
          (apply_dag_result (env_now e) tid r
             (s\<lparr>scheduler := (if res_success r then complete_task tid r (scheduler s)
                                else fail_task tid (scheduler s))\<rparr>)))"
    using assms
    by (auto simp: mark_idle_def apply_dag_result_def complete_task_def fail_task_def
          dicts_wf_def Let_def distinct_update distinct_delete split: option.splits)
  then show ?thesis using TaskResult
    by (simp add: handle_task_result_def Let_def dicts_wf_schedule_dag_tasks)
next
  case (SubmitDag nm ts)
  have "dicts_wf (s\<lparr>dags := AList.update (env_uuid e) d (dags s)\<rparr>)" for d
    using assms by (simp add: dicts_wf_def distinct_update)
  then show ?thesis using SubmitDag
    by (simp add: handle_submit_dag_def Let_def dicts_wf_schedule_dag_tasks)
qed (use assms in \<open>auto simp: handle_register_node_def handle_heartbeat_def
      handle_get_status_def handle_get_dag_status_def Let_def dicts_wf_def distinct_update
      split: option.splits\<close>)

lemma step_wf: "dicts_wf s \<Longrightarrow> dicts_wf (step s ev)"
proof (cases ev)
  case (Request e m)
  assume "dicts_wf s"
  then show ?thesis using Request by (simp add: process_message_wf)
next
  case SchedulerTick
  assume a: "dicts_wf s"
  have "dicts_wf (foldl (\<lambda>s' did. schedule_dag_tasks did s') s ds)" for ds
    using a by (induction ds arbitrary: s) (simp_all add: dicts_wf_schedule_dag_tasks)
  then show ?thesis using SchedulerTick by (simp add: scheduler_loop_tick_def)
next
  case (HealthTick now)
  assume "dicts_wf s"
  then show ?thesis using HealthTick by (simp add: health_check_def remove_dead_nodes_wf)
qed

lemma run_dicts_wf: "dicts_wf (run evs)"
proof (induction evs rule: rev_induct)
  case Nil
  then show ?case
    by (simp add: run_def ControllerNode_init_def TaskScheduler_init_def dicts_wf_def)
next
  case (snoc ev evs)
  then show ?case by (simp add: run_snoc step_wf)
qed


end
